theory Spec2Isabelle
  imports Complex_Main "HOL-Library.Stream" "HOL-Library.Multiset"
begin

section \<open>Python values, errors and the random source\<close>

text \<open>
  The development embeds \<^verbatim>\<open>BrickWall/BrickWall.py\<close>. Python integers are unbounded,
  so brick lengths are \<^typ>\<open>int\<close>. Exceptions are values of \<^typ>\<open>'a + 'b\<close> with the
  error on the left; a \<^verbatim>\<open>while\<close> loop that may run forever returns \<^term>\<open>None\<close>.
\<close>

datatype error = NameError | TypeError | ValueError | IndexError

text \<open>
  The values a caller can put into a wall matrix. \<^verbatim>\<open>isinstance(v, int)\<close> holds for
  integers and for booleans (\<^verbatim>\<open>bool\<close> is a subclass of \<^verbatim>\<open>int\<close>).
\<close>

datatype pyval = PyInt int | PyBool bool | PyFloat real | PyStr string | PyNone

fun isinstance_int :: "pyval \<Rightarrow> bool" where
  "isinstance_int (PyInt _) = True"
| "isinstance_int (PyBool _) = True"
| "isinstance_int _ = False"

text \<open>
  The module-level generator behind \<^verbatim>\<open>random.randint\<close> and \<^verbatim>\<open>random.shuffle\<close> is an
  infinite stream of raw natural numbers; each draw consumes the head.
  \<^verbatim>\<open>randint(a, b)\<close> raises \<^verbatim>\<open>ValueError\<close> on an empty range and otherwise returns a
  value in \<open>[a, b]\<close>: every value of the range is the image of some raw number and
  every raw number gives a value of the range.
\<close>

type_synonym rng = "nat stream"

definition randint :: "int \<Rightarrow> int \<Rightarrow> rng \<Rightarrow> error + int \<times> rng" where
  "randint a b g =
     (if b < a then Inl ValueError
      else Inr (a + int (shd g mod nat (b - a + 1)), stl g))"

text \<open>
  \<^verbatim>\<open>random.shuffle(x)\<close> of the standard library:
  \<^verbatim>\<open>for i in reversed(range(1, len(x))): j = randbelow(i + 1); x[i], x[j] = x[j], x[i]\<close>.
\<close>

fun shuffle_from :: "nat \<Rightarrow> 'a list \<Rightarrow> rng \<Rightarrow> 'a list \<times> rng" where
  "shuffle_from 0 x g = (x, g)"
| "shuffle_from (Suc i) x g =
     (let j = shd g mod (Suc i + 1)
      in shuffle_from i (x[Suc i := x ! j, j := x ! Suc i]) (stl g))"

definition shuffle :: "'a list \<Rightarrow> rng \<Rightarrow> 'a list \<times> rng" where
  "shuffle x g = shuffle_from (length x - 1) x g"

section \<open>The wall object\<close>

text \<open>
  The two attributes of a \<^verbatim>\<open>BrickWall\<close>. The type of the bricks is a parameter:
  the constructor stores whatever matrix passes its check, and the numeric methods
  work on walls of integers (the annotated type \<^verbatim>\<open>list[list[int]]\<close>).
\<close>

record 'b BrickWall =
  wall :: "'b list list"
  crossing_sign :: string

definition max_rows_number :: int where "max_rows_number = 10"
definition max_row_length :: int where "max_row_length = 50"
definition max_extra_length :: int where "max_extra_length = 10"

text \<open>
  Results of methods that contain the fill loop: \<^term>\<open>None\<close> when the loop never
  ends, \<^term>\<open>Some (Inl e)\<close> when \<open>e\<close> is raised, \<^term>\<open>Some (Inr v)\<close> on return.
\<close>

type_synonym 'a result = "(error + 'a) option"

definition bind_res :: "'a result \<Rightarrow> ('a \<Rightarrow> 'b result) \<Rightarrow> 'b result" where
  "bind_res m f = (case m of None \<Rightarrow> None | Some (Inl e) \<Rightarrow> Some (Inl e) | Some (Inr v) \<Rightarrow> f v)"

subsection \<open>Row lengths and validity\<close>

text \<open>The body of \<^verbatim>\<open>get_row_len\<close> after the row has been fetched.\<close>

definition row_len :: "int list \<Rightarrow> int" where
  "row_len row = sum_list row + int (length row) + 1"

text \<open>\<^verbatim>\<open>self.wall[index]\<close>; an index below zero is taken from the end of the list.\<close>

definition py_index :: "'a list \<Rightarrow> int \<Rightarrow> error + 'a" where
  "py_index xs i =
     (if 0 \<le> i \<and> i < int (length xs) then Inr (xs ! nat i)
      else if - int (length xs) \<le> i \<and> i < 0 then Inr (xs ! nat (int (length xs) + i))
      else Inl IndexError)"

definition get_row_len :: "int BrickWall \<Rightarrow> int \<Rightarrow> error + int" where
  "get_row_len self index =
     (case py_index (wall self) index of
        Inl e \<Rightarrow> Inl e
      | Inr row \<Rightarrow> Inr (row_len row))"

text \<open>\<^verbatim>\<open>max([...])\<close> raises \<^verbatim>\<open>ValueError\<close> on an empty list.\<close>

fun py_max :: "int list \<Rightarrow> error + int" where
  "py_max [] = Inl ValueError"
| "py_max (x # xs) = Inr (fold max xs x)"

definition get_max_row_len :: "int BrickWall \<Rightarrow> error + int" where
  "get_max_row_len self = py_max (map row_len (wall self))"

text \<open>The \<^verbatim>\<open>for row_index in range(1, len(self.wall))\<close> loop of \<^verbatim>\<open>is_valid\<close>.\<close>

fun is_valid_loop :: "int \<Rightarrow> int list list \<Rightarrow> bool" where
  "is_valid_loop first_row_length [] = True"
| "is_valid_loop first_row_length (row # rows) =
     (if row_len row \<noteq> first_row_length then False
      else is_valid_loop first_row_length rows)"

definition is_valid :: "int BrickWall \<Rightarrow> error + bool" where
  "is_valid self =
     (case wall self of
        [] \<Rightarrow> Inl IndexError
      | row0 # rows \<Rightarrow> Inr (is_valid_loop (row_len row0) rows))"

subsection \<open>The packer\<close>

text \<open>
  The \<^verbatim>\<open>while count < max_row_length\<close> loop of \<^verbatim>\<open>fill_wall_with_bricks\<close> for one
  row; \<open>w\<close> is \<^verbatim>\<open>max_row_length\<close> after the subtraction of 2 and
  \<open>cnt\<close> is the source's \<^verbatim>\<open>count\<close>. A rejected draw
  repeats the loop in the same state, so the loop need not end.
\<close>

partial_function (option)
  fill_loop :: "int \<Rightarrow> int \<Rightarrow> int list \<Rightarrow> rng \<Rightarrow> (error + int list \<times> rng) option"
where
  "fill_loop w cnt row g =
     (if cnt < w then
        (case randint 1 w g of
           Inl e \<Rightarrow> Some (Inl e)
         | Inr (num, g') \<Rightarrow>
             if (w - 1 \<le> num \<and> num \<le> w) \<and> cnt = 0 then Some (Inr (row @ [w], g'))
             else if w - cnt \<le> 3 then Some (Inr (row @ [w - cnt], g'))
             else if w - cnt \<ge> num \<and> w - cnt \<noteq> num + 1
               then fill_loop w (cnt + (num + 1)) (row @ [num]) g'
             else fill_loop w cnt row g')
      else Some (Inr (row, g)))"

text \<open>The \<^verbatim>\<open>for row in self.wall\<close> loop around it.\<close>

fun fill_rows :: "int \<Rightarrow> int list list \<Rightarrow> rng \<Rightarrow> (int list list \<times> rng) result" where
  "fill_rows w [] g = Some (Inr ([], g))"
| "fill_rows w (row # rows) g =
     bind_res
       (fill_loop w (if length row = 0 then 0 else sum_list row + int (length row)) row g)
       (\<lambda>(row', g'). bind_res (fill_rows w rows g')
          (\<lambda>(rows', g''). Some (Inr (row' # rows', g''))))"

text \<open>The \<^verbatim>\<open>for row in self.wall: shuffle(row)\<close> loop.\<close>

fun shuffle_each :: "int list list \<Rightarrow> rng \<Rightarrow> int list list \<times> rng" where
  "shuffle_each [] g = ([], g)"
| "shuffle_each (row # rows) g =
     (let (row', g') = shuffle row g; (rows', g'') = shuffle_each rows g'
      in (row' # rows', g''))"

definition fill_wall_with_bricks ::
  "int BrickWall \<Rightarrow> int \<Rightarrow> bool \<Rightarrow> rng \<Rightarrow> (int BrickWall \<times> rng) result" where
  "fill_wall_with_bricks self max_row_length_arg shuffle_rows g =
     bind_res (fill_rows (max_row_length_arg - 2) (wall self) g)
       (\<lambda>(rows, g').
          if shuffle_rows
          then (let (rows', g'') = shuffle_each rows g'
                in Some (Inr (self\<lparr>wall := rows'\<rparr>, g'')))
          else Some (Inr (self\<lparr>wall := rows\<rparr>, g')))"

subsection \<open>Construction\<close>

text \<open>
  The setter of \<^verbatim>\<open>wall\<close> for a value other than \<^verbatim>\<open>None\<close>. Its test reads
  \<^verbatim>\<open>for row in wall for brick_len in row\<close>: the name \<^verbatim>\<open>wall\<close> is not the parameter
  \<^verbatim>\<open>value\<close> and not a local name, so it is looked up among the module's globals.
  \<open>global_wall\<close> is that binding: \<^term>\<open>None\<close> when the module has no global \<^verbatim>\<open>wall\<close>
  (the lookup raises \<^verbatim>\<open>NameError\<close>), and the matrix bound by the \<^verbatim>\<open>__main__\<close> block
  when the file runs as a script.
\<close>

definition wall_setter :: "pyval list list option \<Rightarrow> 'b list list \<Rightarrow> error + 'b list list" where
  "wall_setter global_wall val =
     (case global_wall of
        None \<Rightarrow> Inl NameError
      | Some wall_g \<Rightarrow>
          if \<not> list_all (\<lambda>row. list_all isinstance_int row) wall_g then Inl TypeError
          else Inr val)"

definition crossing_sign_setter :: "'b BrickWall \<Rightarrow> string \<Rightarrow> error + 'b BrickWall" where
  "crossing_sign_setter self val =
     (if length val \<noteq> 1 then Inl ValueError else Inr (self\<lparr>crossing_sign := val\<rparr>))"

text \<open>\<^verbatim>\<open>BrickWall(wall)\<close> with an explicit matrix: both assignments of \<^verbatim>\<open>__init__\<close>.\<close>

definition BrickWall_init :: "pyval list list option \<Rightarrow> 'b list list \<Rightarrow> error + 'b BrickWall" where
  "BrickWall_init global_wall wall_arg =
     (case wall_setter global_wall wall_arg of
        Inl e \<Rightarrow> Inl e
      | Inr w \<Rightarrow> crossing_sign_setter \<lparr>wall = w, crossing_sign = []\<rparr> ''x'')"

text \<open>
  \<^verbatim>\<open>create_wall\<close>. The arguments are integers or absent, so the two \<^verbatim>\<open>isinstance\<close>
  tests pass; the assignment \<^verbatim>\<open>self.wall = [[] for ...]\<close> goes through the setter.
\<close>

definition create_wall ::
  "pyval list list option \<Rightarrow> int BrickWall \<Rightarrow> int option \<Rightarrow> int option \<Rightarrow> rng
     \<Rightarrow> (int BrickWall \<times> rng) result" where
  "create_wall global_wall self rows_number_arg row_length_arg g =
     bind_res
       (case rows_number_arg of
          None \<Rightarrow> Some (randint 1 max_rows_number g)
        | Some n \<Rightarrow> Some (Inr (n, g)))
       (\<lambda>(rows_number, g1).
          if rows_number < 1 then Some (Inl ValueError)
          else bind_res
            (case row_length_arg of
               None \<Rightarrow> Some (randint 10 max_row_length g1)
             | Some l \<Rightarrow> Some (Inr (l, g1)))
            (\<lambda>(row_length, g2).
               if row_length < 3 then Some (Inl ValueError)
               else bind_res (Some (wall_setter global_wall (replicate (nat rows_number) [])))
                 (\<lambda>w. fill_wall_with_bricks (self\<lparr>wall := w\<rparr>) row_length True g2)))"

text \<open>
  \<^verbatim>\<open>BrickWall()\<close>: the setter calls \<^verbatim>\<open>create_wall()\<close>, then the sign is set to \<^verbatim>\<open>"x"\<close>;
  \<^verbatim>\<open>create_wall\<close> touches the wall only.
\<close>

definition BrickWall_init_default :: "pyval list list option \<Rightarrow> rng \<Rightarrow> (int BrickWall \<times> rng) result" where
  "BrickWall_init_default global_wall g =
     bind_res (create_wall global_wall \<lparr>wall = [], crossing_sign = []\<rparr> None None g)
       (\<lambda>(self, g').
          case crossing_sign_setter self ''x'' of
            Inl e \<Rightarrow> Some (Inl e)
          | Inr self' \<Rightarrow> Some (Inr (self', g')))"

subsection \<open>Normalization\<close>

definition normalize_wall :: "int BrickWall \<Rightarrow> rng \<Rightarrow> (int BrickWall \<times> rng) result" where
  "normalize_wall self g =
     bind_res (Some (is_valid self))
       (\<lambda>valid.
          if valid then Some (Inr (self, g))
          else bind_res (Some (get_max_row_len self))
            (\<lambda>longest_row.
               bind_res (fill_wall_with_bricks self longest_row False g)
                 (\<lambda>(self1, g1).
                    bind_res (Some (is_valid self1))
                      (\<lambda>valid1.
                         if \<not> valid1
                         then bind_res (Some (randint 3 max_extra_length g1))
                           (\<lambda>(extra_length, g2).
                              fill_wall_with_bricks self1 (longest_row + extra_length) False g2)
                         else Some (Inr (self1, g1))))))"

subsection \<open>The crossline search\<close>

text \<open>
  The dictionary \<^verbatim>\<open>intersections\<close> keeps its keys in insertion order, and \<^verbatim>\<open>max\<close>
  walks them in that order: an association list, a new key going to the end.
\<close>

fun dict_get :: "(int \<times> int) list \<Rightarrow> int \<Rightarrow> int \<Rightarrow> int" where
  "dict_get [] k d = d"
| "dict_get ((k', v) # kvs) k d = (if k' = k then v else dict_get kvs k d)"

fun dict_set :: "(int \<times> int) list \<Rightarrow> int \<Rightarrow> int \<Rightarrow> (int \<times> int) list" where
  "dict_set [] k v = [(k, v)]"
| "dict_set ((k', v') # kvs) k v = (if k' = k then (k, v) # kvs else (k', v') # dict_set kvs k v)"

text \<open>\<^verbatim>\<open>for brick_length in row[:-1]\<close>.\<close>

fun seam_loop :: "int \<Rightarrow> int list \<Rightarrow> (int \<times> int) list \<Rightarrow> (int \<times> int) list" where
  "seam_loop cnt [] intersections = intersections"
| "seam_loop cnt (brick_length # bricks) intersections =
     (let cnt' = cnt + (brick_length + 1)
      in seam_loop cnt' bricks (dict_set intersections cnt' (dict_get intersections cnt' 0 + 1)))"

fun seam_rows :: "int list list \<Rightarrow> (int \<times> int) list \<Rightarrow> (int \<times> int) list" where
  "seam_rows [] intersections = intersections"
| "seam_rows (row # rows) intersections = seam_rows rows (seam_loop 0 (butlast row) intersections)"

text \<open>
  \<^verbatim>\<open>max(intersections, key=intersections.get)\<close>: the first key, in iteration order,
  whose value no later key exceeds.
\<close>

fun max_key_loop :: "(int \<times> int) list \<Rightarrow> int \<Rightarrow> int \<Rightarrow> int" where
  "max_key_loop [] best best_val = best"
| "max_key_loop ((k, v) # kvs) best best_val =
     (if v > best_val then max_key_loop kvs k v else max_key_loop kvs best best_val)"

definition find_min_brick_crossline_position ::
  "int BrickWall \<Rightarrow> rng \<Rightarrow> (int \<times> int BrickWall \<times> rng) result" where
  "find_min_brick_crossline_position self g =
     bind_res (Some (is_valid self))
       (\<lambda>valid.
          bind_res (if \<not> valid then normalize_wall self g else Some (Inr (self, g)))
            (\<lambda>(self', g').
               case seam_rows (wall self') [] of
                 [] \<Rightarrow> Some (Inr (1, self', g'))
               | (k, v) # kvs \<Rightarrow> Some (Inr (max_key_loop kvs k v, self', g'))))"

subsection \<open>Drawing\<close>

text \<open>
  Standard output is the list of the lines printed so far. A drawing method returns
  the exception it raised, if any, and the output at that moment.
\<close>

definition slice_bound :: "nat \<Rightarrow> int \<Rightarrow> nat" where
  "slice_bound n i = (if i < 0 then nat (int n + i) else min (nat i) n)"

definition slice_to :: "'a list \<Rightarrow> int \<Rightarrow> 'a list" where
  "slice_to s hi = take (slice_bound (length s) hi) s"

definition slice_from :: "'a list \<Rightarrow> int \<Rightarrow> 'a list" where
  "slice_from s lo = drop (slice_bound (length s) lo) s"

definition draw_wall_border ::
  "int BrickWall \<Rightarrow> int option \<Rightarrow> string list \<Rightarrow> error option \<times> string list" where
  "draw_wall_border self crossline_pos out =
     (case get_max_row_len self of
        Inl e \<Rightarrow> (Some e, out)
      | Inr m \<Rightarrow>
          (let border_str = replicate (nat m) CHR ''-'';
               border_str = ''+'' @ slice_to (slice_from border_str 1) (- 1) @ ''+'';
               border_str =
                 (case crossline_pos of
                    None \<Rightarrow> border_str
                  | Some p \<Rightarrow>
                      slice_to border_str p @ crossing_sign self @ slice_from border_str (p + 1))
           in (None, out @ [border_str])))"

fun draw_rows :: "int list list \<Rightarrow> string list \<Rightarrow> string list" where
  "draw_rows [] out = out"
| "draw_rows (row # rows) out =
     draw_rows rows
       (out @ [fold (\<lambda>brick_length row_str. row_str @ replicate (nat brick_length) CHR '' '' @ ''|'')
                 row ''|''])"

definition draw_wall :: "int BrickWall \<Rightarrow> string list \<Rightarrow> error option \<times> string list" where
  "draw_wall self out =
     (case draw_wall_border self None out of
        (Some e, out1) \<Rightarrow> (Some e, out1)
      | (None, out1) \<Rightarrow> draw_wall_border self None (draw_rows (wall self) out1))"

text \<open>\<^verbatim>\<open>for _ in range(brick_length)\<close> inside \<^verbatim>\<open>draw_wall_crossline\<close>.\<close>

fun cross_cells :: "nat \<Rightarrow> string \<Rightarrow> int \<Rightarrow> int \<Rightarrow> string \<Rightarrow> string \<times> int" where
  "cross_cells 0 sign position pos row_str = (row_str, pos)"
| "cross_cells (Suc n) sign position pos row_str =
     cross_cells n sign position (pos + 1)
       (row_str @ (if pos = position then sign else '' ''))"

fun cross_bricks :: "int list \<Rightarrow> string \<Rightarrow> int \<Rightarrow> int \<Rightarrow> string \<Rightarrow> string" where
  "cross_bricks [] sign position pos row_str = row_str"
| "cross_bricks (brick_length # bricks) sign position pos row_str =
     (let (row_str', pos') = cross_cells (nat brick_length) sign position pos row_str
      in cross_bricks bricks sign position (pos' + 1) (row_str' @ ''|''))"

fun cross_rows :: "int list list \<Rightarrow> string \<Rightarrow> int \<Rightarrow> string list \<Rightarrow> string list" where
  "cross_rows [] sign position out = out"
| "cross_rows (row # rows) sign position out =
     cross_rows rows sign position (out @ [cross_bricks row sign position 1 ''|''])"

text \<open>
  The test \<^verbatim>\<open>position <= 0 or position >= self.get_max_row_len() - 1\<close> evaluates its
  second operand, and with it \<^verbatim>\<open>max\<close>, only when the first is false.
\<close>

definition draw_wall_crossline ::
  "int BrickWall \<Rightarrow> int \<Rightarrow> string list \<Rightarrow> error option \<times> string list" where
  "draw_wall_crossline self position out =
     (if position \<le> 0 then (Some ValueError, out)
      else case get_max_row_len self of
        Inl e \<Rightarrow> (Some e, out)
      | Inr m \<Rightarrow>
          if position \<ge> m - 1 then (Some ValueError, out)
          else (case draw_wall_border self (Some position) out of
                  (Some e, out1) \<Rightarrow> (Some e, out1)
                | (None, out1) \<Rightarrow>
                    draw_wall_border self (Some position)
                      (cross_rows (wall self) (crossing_sign self) position out1)))"

text \<open>The wall of the \<^verbatim>\<open>__main__\<close> block.\<close>

definition main_wall :: "int list list" where
  "main_wall = [[5, 5, 5, 5], [3, 3, 3, 7, 3], [5, 9, 7], [3, 3, 3, 6, 4]]"

section \<open>Predicates of the specification\<close>

text \<open>
  \<open>added_ok w cnt ys\<close>: the bricks \<open>ys\<close> that one run of the loop appends, started
  with \<open>cnt\<close> places taken, are all positive, and together with their separators
  they take \<open>w + 1 - cnt\<close> places when the loop runs at all and none otherwise.
\<close>

definition added_ok :: "int \<Rightarrow> int \<Rightarrow> int list \<Rightarrow> bool" where
  "added_ok w cnt ys \<longleftrightarrow>
     list_all (\<lambda>b. 1 \<le> b) ys \<and>
     sum_list ys + int (length ys) = (if cnt < w then w + 1 - cnt else 0)"

definition grown :: "int \<Rightarrow> int list \<Rightarrow> int list \<Rightarrow> bool" where
  "grown w row row' \<longleftrightarrow>
     (\<exists>ys. row' = row @ ys \<and> added_ok w (sum_list row + int (length row)) ys)"

text \<open>The length of a row after a fill pass to the total length \<open>l\<close>.\<close>

definition widen :: "int \<Rightarrow> int \<Rightarrow> int" where
  "widen l n = (if n + 1 < l then l else n)"

definition all_positive :: "int list list \<Rightarrow> bool" where
  "all_positive rows = list_all (list_all (\<lambda>b. 0 < b)) rows"

text \<open>
  The raw number 0 gives the draw 1 in every range \<open>[1, w]\<close>. In a source where it
  recurs for ever, no run of rejected draws goes on for ever.
\<close>

definition recurring_one :: "rng \<Rightarrow> bool" where
  "recurring_one g \<longleftrightarrow> (\<forall>i. \<exists>j\<ge>i. g !! j = 0)"

section \<open>Random draws\<close>

lemma randint_Inr:
  assumes "randint a b g = Inr (n, g')"
  shows "a \<le> n \<and> n \<le> b \<and> g' = stl g"
proof -
  from assms have ab: "a \<le> b" by (auto simp: randint_def split: if_splits)
  then have "0 < nat (b - a + 1)" by simp
  then have "shd g mod nat (b - a + 1) < nat (b - a + 1)" by (rule mod_less_divisor)
  then have "int (shd g mod nat (b - a + 1)) < b - a + 1" using ab by linarith
  moreover have "n = a + int (shd g mod nat (b - a + 1))" "g' = stl g"
    using assms by (auto simp: randint_def split: if_splits)
  ultimately show ?thesis by simp
qed

lemma randint_Inl: "randint a b g = Inl e \<Longrightarrow> e = ValueError \<and> b < a"
  by (auto simp: randint_def split: if_splits)

section \<open>One run of the fill loop\<close>

lemma fill_loop_post:
  assumes "fill_loop w cnt row g = Some res"
  shows "case res of
           Inl e \<Rightarrow> e = ValueError \<and> w < 1 \<and> cnt < w
         | Inr (row', g') \<Rightarrow>
             (\<exists>ys. row' = row @ ys \<and> added_ok w cnt ys) \<and> (\<not> cnt < w \<longrightarrow> g' = g)"
  using assms
proof (induction w cnt row g res rule: fill_loop.raw_induct[rotated 1, consumes 1])
  case (1 fill_loop w cnt row g res)
  show ?case
  proof (cases "cnt < w")
    case False
    with 1(2) show ?thesis by (auto simp: added_ok_def)
  next
    case True
    show ?thesis
    proof (cases "randint 1 w g")
      case (Inl e)
      with True 1(2) randint_Inl[OF Inl] show ?thesis by auto
    next
      case (Inr p)
      obtain num g1 where p: "p = (num, g1)" by (cases p)
      from randint_Inr[OF Inr[unfolded p]] have rng: "1 \<le> num" "num \<le> w" by auto
      consider (single) "(w - 1 \<le> num \<and> num \<le> w) \<and> cnt = 0"
        | (last) "\<not> ((w - 1 \<le> num \<and> num \<le> w) \<and> cnt = 0)" "w - cnt \<le> 3"
        | (accept) "\<not> ((w - 1 \<le> num \<and> num \<le> w) \<and> cnt = 0)" "\<not> w - cnt \<le> 3"
                   "w - cnt \<ge> num \<and> w - cnt \<noteq> num + 1"
        | (reject) "\<not> ((w - 1 \<le> num \<and> num \<le> w) \<and> cnt = 0)" "\<not> w - cnt \<le> 3"
                   "\<not> (w - cnt \<ge> num \<and> w - cnt \<noteq> num + 1)"
        by blast
      then show ?thesis
      proof cases
        case single
        with True Inr p 1(2) rng show ?thesis by (auto simp: added_ok_def)
      next
        case last
        with True Inr p 1(2) show ?thesis by (auto simp: added_ok_def)
      next
        case accept
        with True Inr p 1(2) have rec: "fill_loop w (cnt + (num + 1)) (row @ [num]) g1 = Some res"
          by (auto split: if_splits)
        from 1(1)[OF rec] accept rng True show ?thesis
          by (auto simp: added_ok_def split: sum.splits if_splits)
      next
        case reject
        with True Inr p 1(2) have rec: "fill_loop w cnt row g1 = Some res"
          by (auto split: if_splits)
        from 1(1)[OF rec] True show ?thesis
          by (auto split: sum.splits)
      qed
    qed
  qed
qed

lemma fill_rows_Cons:
  "fill_rows w (row # rows) g =
     bind_res (fill_loop w (sum_list row + int (length row)) row g)
       (\<lambda>(row', g'). bind_res (fill_rows w rows g')
          (\<lambda>(rows', g''). Some (Inr (row' # rows', g''))))"
  by simp

lemma fill_loop_grown:
  assumes "fill_loop w (sum_list row + int (length row)) row g = Some (Inr (row', g'))"
  shows "grown w row row'"
  using fill_loop_post[OF assms] by (auto simp: grown_def)

lemma grown_row_len: "grown (l - 2) row row' \<Longrightarrow> row_len row' = widen l (row_len row)"
  by (auto simp: grown_def added_ok_def row_len_def widen_def split: if_splits)

lemma grown_positive: "grown w row row' \<Longrightarrow> list_all (\<lambda>b. 0 < b) row \<Longrightarrow> list_all (\<lambda>b. 0 < b) row'"
  by (fastforce simp: grown_def added_ok_def list_all_iff)


lemma fill_rows_post:
  "fill_rows w rows g = Some (Inr (rows', g')) \<Longrightarrow> list_all2 (grown w) rows rows'"
proof (induction rows arbitrary: g rows')
  case Nil
  then show ?case by simp
next
  case (Cons row rows)
  from Cons.prems obtain row' g1 rows1 where
    a: "fill_loop w (sum_list row + int (length row)) row g = Some (Inr (row', g1))"
    and b: "fill_rows w rows g1 = Some (Inr (rows1, g'))" and c: "rows' = row' # rows1"
    by (auto simp: fill_rows_Cons bind_res_def simp del: fill_rows.simps split: option.splits sum.splits prod.splits)
  from fill_loop_grown[OF a] Cons.IH[OF b] c show ?case by simp
qed

lemma fill_rows_error:
  "fill_rows w rows g = Some (Inl e) \<Longrightarrow> e = ValueError \<and> w < 1"
proof (induction rows arbitrary: g)
  case Nil
  then show ?case by simp
next
  case (Cons row rows)
  show ?case
  proof (cases "fill_loop w (sum_list row + int (length row)) row g")
    case None
    with Cons.prems show ?thesis by (simp add: fill_rows_Cons bind_res_def del: fill_rows.simps)
  next
    case (Some r)
    show ?thesis
    proof (cases r)
      case (Inl e')
      with Some Cons.prems fill_loop_post[OF Some] show ?thesis
        by (auto simp: fill_rows_Cons bind_res_def simp del: fill_rows.simps)
    next
      case (Inr p)
      with Some Cons.prems Cons.IH show ?thesis
        by (auto simp: fill_rows_Cons bind_res_def simp del: fill_rows.simps split: option.splits sum.splits prod.splits)
    qed
  qed
qed

lemma shuffle_from_mset: "i < length x \<Longrightarrow> mset (fst (shuffle_from i x g)) = mset x"
proof (induction i arbitrary: x g)
  case 0
  then show ?case by simp
next
  case (Suc i)
  let ?j = "shd g mod (Suc i + 1)"
  have "?j < Suc i + 1" by (rule mod_less_divisor) simp
  then have j: "?j < length x" using Suc.prems by linarith
  have sw: "mset (x[Suc i := x ! ?j, ?j := x ! Suc i]) = mset x"
    by (rule mset_swap[OF j Suc.prems])
  have "i < length (x[Suc i := x ! ?j, ?j := x ! Suc i])" using Suc.prems by simp
  from Suc.IH[OF this] sw show ?case by (simp add: Let_def)
qed

lemma shuffle_mset: "mset (fst (shuffle x g)) = mset x"
proof (cases x)
  case Nil
  then show ?thesis by (simp add: shuffle_def)
next
  case (Cons a as)
  then show ?thesis by (simp add: shuffle_def shuffle_from_mset)
qed

lemma mset_row_len: "mset r' = mset r \<Longrightarrow> row_len r' = row_len r"
proof -
  assume h: "mset r' = mset r"
  have "sum_list r' = sum_list r" using h by (metis sum_mset_sum_list)
  moreover have "length r' = length r" using h by (metis size_mset)
  ultimately show ?thesis by (simp add: row_len_def)
qed

lemma shuffle_each_mset: "list_all2 (\<lambda>r r'. mset r' = mset r) rows (fst (shuffle_each rows g))"
proof (induction rows arbitrary: g)
  case Nil
  then show ?case by simp
next
  case (Cons row rows)
  show ?case using Cons.IH[of "snd (shuffle row g)"] shuffle_mset[of row g]
    by (auto simp: split_beta Let_def)
qed

lemma list_all2_grown_lens:
  "list_all2 (grown (l - 2)) rows rows' \<Longrightarrow> map row_len rows' = map (widen l) (map row_len rows)"
  by (induction rule: list_all2_induct) (auto simp: grown_row_len)

lemma list_all2_grown_positive:
  "list_all2 (grown w) rows rows' \<Longrightarrow> all_positive rows \<Longrightarrow> all_positive rows'"
  unfolding all_positive_def
  by (induction rule: list_all2_induct) (auto dest: grown_positive)

lemma list_all2_mset_lens:
  "list_all2 (\<lambda>r r'. mset r' = mset r) rows rows' \<Longrightarrow> map row_len rows' = map row_len rows"
proof (induction rule: list_all2_induct)
  case Nil
  then show ?case by simp
next
  case (Cons r rs r' rs')
  from mset_row_len[OF Cons.hyps(1)] Cons.IH show ?case by simp
qed

lemma mset_positive: "mset r' = mset r \<Longrightarrow> list_all (\<lambda>b. 0 < b) r \<Longrightarrow> list_all (\<lambda>b. (0::int) < b) r'"
  by (metis list_all_iff set_mset_mset)

lemma list_all2_mset_positive:
  "list_all2 (\<lambda>r r'. mset r' = mset r) rows rows' \<Longrightarrow> all_positive rows \<Longrightarrow> all_positive rows'"
  unfolding all_positive_def
  by (induction rule: list_all2_induct) (auto dest: mset_positive)

lemma fill_wall_cases:
  assumes "fill_wall_with_bricks self l sh g = Some (Inr (self', g'))"
  shows "\<exists>rows g1. fill_rows (l - 2) (wall self) g = Some (Inr (rows, g1)) \<and>
           (sh \<longrightarrow> wall self' = fst (shuffle_each rows g1)) \<and>
           (\<not> sh \<longrightarrow> wall self' = rows \<and> g' = g1)"
  using assms
  by (auto simp: fill_wall_with_bricks_def bind_res_def split_beta Let_def
      split: option.splits sum.splits if_splits)

lemma fill_wall_lens:
  assumes "fill_wall_with_bricks self l sh g = Some (Inr (self', g'))"
  shows "map row_len (wall self') = map (widen l) (map row_len (wall self))"
proof -
  from assms obtain rows g1 where r: "fill_rows (l - 2) (wall self) g = Some (Inr (rows, g1))"
    and s: "sh \<longrightarrow> wall self' = fst (shuffle_each rows g1)"
    and n: "\<not> sh \<longrightarrow> wall self' = rows \<and> g' = g1"
    using fill_wall_cases by blast
  have a: "map row_len rows = map (widen l) (map row_len (wall self))"
    using list_all2_grown_lens[OF fill_rows_post[OF r]] .
  show ?thesis
  proof (cases sh)
    case True
    with s a list_all2_mset_lens[OF shuffle_each_mset[of rows g1]] show ?thesis by simp
  next
    case False
    with n a show ?thesis by simp
  qed
qed

lemma fill_wall_positive:
  assumes "fill_wall_with_bricks self l sh g = Some (Inr (self', g'))"
    and "all_positive (wall self)"
  shows "all_positive (wall self')"
proof -
  from assms(1) obtain rows g1 where r: "fill_rows (l - 2) (wall self) g = Some (Inr (rows, g1))"
    and s: "sh \<longrightarrow> wall self' = fst (shuffle_each rows g1)"
    and n: "\<not> sh \<longrightarrow> wall self' = rows \<and> g' = g1"
    using fill_wall_cases by blast
  have a: "all_positive rows"
    using list_all2_grown_positive[OF fill_rows_post[OF r] assms(2)] .
  show ?thesis
  proof (cases sh)
    case True
    with s list_all2_mset_positive[OF shuffle_each_mset[of rows g1] a] show ?thesis by simp
  next
    case False
    with n a show ?thesis by simp
  qed
qed

lemma fill_wall_sign:
  assumes "fill_wall_with_bricks self l sh g = Some (Inr (self', g'))"
  shows "crossing_sign self' = crossing_sign self"
  using assms
  by (auto simp: fill_wall_with_bricks_def bind_res_def split_beta Let_def
      split: option.splits sum.splits if_splits)

lemma is_valid_loop_iff: "is_valid_loop f rows \<longleftrightarrow> list_all (\<lambda>n. n = f) (map row_len rows)"
  by (induction rows) auto

lemma is_valid_lens:
  "is_valid self =
     (case map row_len (wall self) of
        [] \<Rightarrow> Inl IndexError
      | n # ns \<Rightarrow> Inr (list_all (\<lambda>m. m = n) ns))"
  by (auto simp: is_valid_def is_valid_loop_iff split: list.splits)

lemma fold_max_ge: "fold max ns (n::int) \<ge> n \<and> list_all (\<lambda>m. m \<le> fold max ns n) ns"
proof (induction ns arbitrary: n)
  case Nil
  then show ?case by simp
next
  case (Cons a ns)
  from Cons.IH[of "max a n"] show ?case
    by (auto simp: list_all_iff)
qed

lemma fold_max_mem: "fold max ns (n::int) \<in> set (n # ns)"
proof (induction ns arbitrary: n)
  case Nil
  then show ?case by simp
next
  case (Cons a ns)
  from Cons.IH[of "max a n"] show ?case by (auto simp: max_def split: if_splits)
qed

lemma py_max_Inr:
  "py_max ns = Inr m \<Longrightarrow> ns \<noteq> [] \<and> m \<in> set ns \<and> list_all (\<lambda>n. n \<le> m) ns"
proof (cases ns)
  case Nil
  assume "py_max ns = Inr m"
  with Nil show ?thesis by simp
next
  case (Cons a as)
  assume "py_max ns = Inr m"
  with Cons have m: "m = fold max as a" by simp
  from fold_max_ge[of a as] fold_max_mem[of as a] show ?thesis
    unfolding Cons m by (simp add: list_all_iff)
qed

lemma all_equal_valid:
  "wall self \<noteq> [] \<Longrightarrow> list_all (\<lambda>n. n = l) (map row_len (wall self)) \<Longrightarrow> is_valid self = Inr True"
  by (auto simp: is_valid_lens list_all_iff split: list.splits)

section \<open>Row length and validity (C3)\<close>

text \<open>
  Claim C3. For every wall and every row index \<open>i\<close> with \<open>0 \<le> i < len(wall)\<close>,
  \<^verbatim>\<open>get_row_len(i)\<close> returns the sum of the bricks of row \<open>i\<close> plus their number plus
  one. For the wall of the \<^verbatim>\<open>__main__\<close> block every row has length 25 and
  \<^verbatim>\<open>is_valid()\<close> returns \<^verbatim>\<open>True\<close> on the wall as given.
\<close>

theorem get_row_len_formula:
  "(0 \<le> i \<and> i < int (length (wall self)) \<longrightarrow>
      get_row_len self i
        = Inr (sum_list (wall self ! nat i) + int (length (wall self ! nat i)) + 1)) \<and>
   get_row_len \<lparr>wall = main_wall, crossing_sign = ''x''\<rparr> 0 = Inr 25 \<and>
   get_row_len \<lparr>wall = main_wall, crossing_sign = ''x''\<rparr> 1 = Inr 25 \<and>
   get_row_len \<lparr>wall = main_wall, crossing_sign = ''x''\<rparr> 2 = Inr 25 \<and>
   get_row_len \<lparr>wall = main_wall, crossing_sign = ''x''\<rparr> 3 = Inr 25 \<and>
   is_valid \<lparr>wall = main_wall, crossing_sign = ''x''\<rparr> = Inr True"
proof -
  have gen: "0 \<le> i \<and> i < int (length (wall self)) \<longrightarrow>
      get_row_len self i
        = Inr (sum_list (wall self ! nat i) + int (length (wall self ! nat i)) + 1)"
    by (simp add: get_row_len_def py_index_def row_len_def)
  have rows: "get_row_len \<lparr>wall = main_wall, crossing_sign = ''x''\<rparr> 0 = Inr 25"
    "get_row_len \<lparr>wall = main_wall, crossing_sign = ''x''\<rparr> 1 = Inr 25"
    "get_row_len \<lparr>wall = main_wall, crossing_sign = ''x''\<rparr> 2 = Inr 25"
    "get_row_len \<lparr>wall = main_wall, crossing_sign = ''x''\<rparr> 3 = Inr 25"
    by (simp_all add: get_row_len_def py_index_def row_len_def main_wall_def)
  have val: "is_valid \<lparr>wall = main_wall, crossing_sign = ''x''\<rparr> = Inr True"
    by (simp add: is_valid_def row_len_def main_wall_def)
  from gen rows val show ?thesis by blast
qed

theorem get_row_len_formula_witness:
  "(0::int) \<le> 2 \<and> 2 < int (length (wall \<lparr>wall = main_wall, crossing_sign = ''x''\<rparr>)) \<and>
   get_row_len \<lparr>wall = main_wall, crossing_sign = ''x''\<rparr> 2 = Inr (5 + 9 + 7 + 3 + 1)"
  using get_row_len_formula[of 2 "\<lparr>wall = main_wall, crossing_sign = ''x''\<rparr>"]
  by (simp add: main_wall_def)

section \<open>What one fill leaves in an empty row (C1)\<close>

text \<open>
  Claim C1, as stated: after the fill loop has run on an empty row with interior width
  \<open>w \<ge> 1\<close>, the bricks and their number sum to \<open>w\<close>. The loop counts the
  separator after the last brick as well, so the sum is \<open>w + 1\<close>: at \<open>w = 1\<close> the
  only row the loop can build is \<open>[1]\<close>, with sum plus number 2.
\<close>

theorem fill_empty_row_counterexample:
  "fill_loop 1 0 [] (sconst 0) = Some (Inr ([1], sconst 0)) \<and>
   fill_wall_with_bricks \<lparr>wall = [[]], crossing_sign = ''x''\<rparr> 3 False (sconst 0)
     = Some (Inr (\<lparr>wall = [[1]], crossing_sign = ''x''\<rparr>, sconst 0)) \<and>
   sum_list [1::int] + int (length [1::int]) \<noteq> 3 - 2"
  by (simp add: fill_loop.simps randint_def fill_wall_with_bricks_def bind_res_def)

text \<open>
  Claim C1, amended. For an empty row and an interior width \<open>w \<ge> 1\<close> (the total length
  passed to \<^verbatim>\<open>fill_wall_with_bricks\<close> minus 2), when the loop returns the row satisfies
  \<open>sum(bricks) + count(bricks) = w + 1\<close>; and when \<^verbatim>\<open>fill_wall_with_bricks\<close> returns on a
  wall of empty rows, every row does, so its derived length is the total length passed.
\<close>

theorem fill_empty_row_count:
  "(1 \<le> w \<and> fill_loop w 0 [] g = Some (Inr (row, g1)) \<longrightarrow>
      sum_list row + int (length row) = w + 1) \<and>
   (1 \<le> l - 2 \<and> list_all (\<lambda>r. r = []) (wall self) \<and>
    fill_wall_with_bricks self l sh g = Some (Inr (self', g')) \<longrightarrow>
      list_all (\<lambda>r. sum_list r + int (length r) = (l - 2) + 1 \<and> row_len r = l) (wall self'))"
proof (intro conjI impI)
  assume h: "1 \<le> w \<and> fill_loop w 0 [] g = Some (Inr (row, g1))"
  then have "fill_loop w 0 [] g = Some (Inr (row, g1))" by simp
  from fill_loop_post[OF this] h
  show "sum_list row + int (length row) = w + 1"
    by (auto simp: added_ok_def)
next
  assume h: "1 \<le> l - 2 \<and> list_all (\<lambda>r. r = []) (wall self) \<and>
    fill_wall_with_bricks self l sh g = Some (Inr (self', g'))"
  then have lens: "map row_len (wall self') = map (widen l) (map row_len (wall self))"
    using fill_wall_lens by blast
  have "list_all (\<lambda>n. n = l) (map (widen l) (map row_len (wall self)))"
    using h by (auto simp: list_all_iff row_len_def widen_def)
  with lens have "list_all (\<lambda>n. n = l) (map row_len (wall self'))" by simp
  then show "list_all (\<lambda>r. sum_list r + int (length r) = (l - 2) + 1 \<and> row_len r = l) (wall self')"
    by (auto simp: list_all_iff row_len_def)
qed

theorem fill_empty_row_count_witness:
  "(1::int) \<le> 6 \<and> fill_loop 6 0 [] (sconst 0) = Some (Inr ([1, 1, 2], sconst 0)) \<and>
   sum_list [1, 1, 2::int] + int (length [1, 1, 2::int]) = 6 + 1 \<and>
   (1::int) \<le> 8 - 2 \<and>
   list_all (\<lambda>r. r = []) (wall \<lparr>wall = [[], []], crossing_sign = ''x''\<rparr>) \<and>
   fill_wall_with_bricks \<lparr>wall = [[], []], crossing_sign = ''x''\<rparr> 8 False (sconst 0)
     = Some (Inr (\<lparr>wall = [[1, 1, 2], [1, 1, 2]], crossing_sign = ''x''\<rparr>, sconst 0)) \<and>
   list_all (\<lambda>r. sum_list r + int (length r) = (8 - 2) + 1 \<and> row_len r = 8)
     (wall \<lparr>wall = [[1, 1, 2], [1, 1, 2::int]], crossing_sign = ''x''\<rparr>)"
proof -
  have a: "fill_loop 6 0 [] (sconst 0) = Some (Inr ([1, 1, 2], sconst 0))"
    by (simp add: fill_loop.simps randint_def)
  have b: "fill_wall_with_bricks \<lparr>wall = [[], []], crossing_sign = ''x''\<rparr> 8 False (sconst 0)
     = Some (Inr (\<lparr>wall = [[1, 1, 2], [1, 1, 2]], crossing_sign = ''x''\<rparr>, sconst 0))"
    by (simp add: fill_wall_with_bricks_def bind_res_def a)
  from fill_empty_row_count[of 6 "sconst 0" "[1, 1, 2]" "sconst 0" 8
      "\<lparr>wall = [[], []], crossing_sign = ''x''\<rparr>" False
      "\<lparr>wall = [[1, 1, 2], [1, 1, 2]], crossing_sign = ''x''\<rparr>" "sconst 0"] a b
  show ?thesis by simp
qed

section \<open>Normalization\<close>


lemma fill_wall_nonempty:
  assumes "fill_wall_with_bricks self l sh g = Some (Inr (self', g'))"
  shows "length (wall self') = length (wall self)"
proof -
  have "length (map row_len (wall self')) = length (map (widen l) (map row_len (wall self)))"
    by (simp only: fill_wall_lens[OF assms])
  then show ?thesis by simp
qed

lemma first_pass_lens:
  assumes "list_all (\<lambda>n. n \<le> m) ns"
  shows "list_all (\<lambda>n. n = m \<or> n = m - 1) (map (widen m) ns)"
  using assms by (auto simp: list_all_iff widen_def)

lemma second_pass_lens:
  assumes "list_all (\<lambda>n. n = m \<or> n = m - 1) ns" and "3 \<le> e"
  shows "list_all (\<lambda>n. n = m + e) (map (widen (m + e)) ns)"
  using assms by (auto simp: list_all_iff widen_def)

lemma lens_valid:
  "wall self \<noteq> [] \<Longrightarrow> list_all (\<lambda>n. n = l) (map row_len (wall self)) \<Longrightarrow> is_valid self = Inr True"
  by (rule all_equal_valid)

lemma normalize_wall_cases:
  assumes "normalize_wall self g = Some (Inr (self', g'))"
  shows "(is_valid self = Inr True \<and> self' = self \<and> g' = g) \<or>
         (is_valid self = Inr False \<and>
          (\<exists>m s1 g1. get_max_row_len self = Inr m \<and>
             fill_wall_with_bricks self m False g = Some (Inr (s1, g1)) \<and>
             ((is_valid s1 = Inr True \<and> self' = s1 \<and> g' = g1) \<or>
              (is_valid s1 = Inr False \<and>
               (\<exists>e g2. randint 3 max_extra_length g1 = Inr (e, g2) \<and>
                  fill_wall_with_bricks s1 (m + e) False g2 = Some (Inr (self', g')))))))"
proof (cases "is_valid self")
  case (Inl e)
  with assms show ?thesis by (simp add: normalize_wall_def bind_res_def)
next
  case (Inr valid)
  show ?thesis
  proof (cases valid)
    case True
    with Inr assms show ?thesis by (simp add: normalize_wall_def bind_res_def)
  next
    case False
    with Inr have nv: "is_valid self = Inr False" by simp
    show ?thesis
    proof (cases "get_max_row_len self")
      case (Inl e)
      with nv assms show ?thesis by (simp add: normalize_wall_def bind_res_def)
    next
      case m: (Inr m)
      from nv m assms obtain s1 g1 where
        p1: "fill_wall_with_bricks self m False g = Some (Inr (s1, g1))"
        and rest: "bind_res (Some (is_valid s1))
                      (\<lambda>valid1.
                         if \<not> valid1
                         then bind_res (Some (randint 3 max_extra_length g1))
                           (\<lambda>(extra_length, g2).
                              fill_wall_with_bricks s1 (m + extra_length) False g2)
                         else Some (Inr (s1, g1))) = Some (Inr (self', g'))"
        by (cases "fill_wall_with_bricks self m False g")
           (auto simp: normalize_wall_def bind_res_def split: sum.splits)
      show ?thesis
      proof (cases "is_valid s1")
        case (Inl e)
        with rest show ?thesis by (simp add: bind_res_def)
      next
        case v1: (Inr valid1)
        show ?thesis
        proof (cases valid1)
          case True
          with v1 rest nv m p1 show ?thesis by (simp add: bind_res_def)
        next
          case False
          with v1 rest obtain e g2 where
            "randint 3 max_extra_length g1 = Inr (e, g2)"
            "fill_wall_with_bricks s1 (m + e) False g2 = Some (Inr (self', g'))"
            by (cases "randint 3 max_extra_length g1") (auto simp: bind_res_def)
          with v1 False nv m p1 show ?thesis by simp
        qed
      qed
    qed
  qed
qed

lemma second_pass_valid:
  assumes m: "get_max_row_len self = Inr m"
    and p1: "fill_wall_with_bricks self m False g = Some (Inr (s1, g1))"
    and r: "randint 3 max_extra_length g1 = Inr (e, g2)"
    and p2: "fill_wall_with_bricks s1 (m + e) False g2 = Some (Inr (s2, g3))"
  shows "3 \<le> e \<and> list_all (\<lambda>n. n = m \<or> n = m - 1) (map row_len (wall s1)) \<and>
         list_all (\<lambda>n. n = m + e) (map row_len (wall s2)) \<and> is_valid s2 = Inr True"
proof -
  from py_max_Inr[OF m[unfolded get_max_row_len_def]]
  have ne: "wall self \<noteq> []" and le: "list_all (\<lambda>n. n \<le> m) (map row_len (wall self))"
    by auto
  from randint_Inr[OF r] have e: "3 \<le> e" by simp
  have l1: "list_all (\<lambda>n. n = m \<or> n = m - 1) (map row_len (wall s1))"
    using first_pass_lens[OF le] fill_wall_lens[OF p1] by simp
  have l2: "list_all (\<lambda>n. n = m + e) (map row_len (wall s2))"
    using second_pass_lens[OF l1 e] fill_wall_lens[OF p2] by simp
  have "wall s2 \<noteq> []"
    using ne fill_wall_nonempty[OF p1] fill_wall_nonempty[OF p2] by auto
  from lens_valid[OF this l2] e l1 l2 show ?thesis by simp
qed

lemma normalize_wall_result_valid:
  assumes "normalize_wall self g = Some (Inr (self', g'))"
  shows "is_valid self' = Inr True"
proof -
  from normalize_wall_cases[OF assms]
  consider (noop) "is_valid self = Inr True" "self' = self"
    | (one) s1 where "is_valid s1 = Inr True" "self' = s1"
    | (two) m s1 g1 e g2 where "get_max_row_len self = Inr m"
        "fill_wall_with_bricks self m False g = Some (Inr (s1, g1))"
        "randint 3 max_extra_length g1 = Inr (e, g2)"
        "fill_wall_with_bricks s1 (m + e) False g2 = Some (Inr (self', g'))"
    by blast
  then show ?thesis
  proof cases
    case noop
    then show ?thesis by simp
  next
    case one
    then show ?thesis by simp
  next
    case two
    from second_pass_valid[OF two] show ?thesis by simp
  qed
qed

lemma normalize_wall_noop:
  "is_valid self = Inr True \<Longrightarrow> normalize_wall self g = Some (Inr (self, g))"
  by (simp add: normalize_wall_def bind_res_def)


lemma positive_count_nonneg: "list_all (\<lambda>b. 0 < b) row \<Longrightarrow> 0 \<le> sum_list row + int (length row)"
  by (induction row) auto

lemma fill_rows_no_error:
  "all_positive rows \<Longrightarrow> fill_rows w rows g \<noteq> Some (Inl e)"
proof (induction rows arbitrary: g)
  case Nil
  then show ?case by simp
next
  case (Cons row rows)
  from Cons.prems have pr: "list_all (\<lambda>b. 0 < b) row" and prs: "all_positive rows"
    by (simp_all add: all_positive_def)
  show ?case
  proof (cases "fill_loop w (sum_list row + int (length row)) row g")
    case None
    then show ?thesis by (simp add: fill_rows_Cons bind_res_def del: fill_rows.simps)
  next
    case (Some r)
    show ?thesis
    proof (cases r)
      case (Inl e')
      with fill_loop_post[OF Some] positive_count_nonneg[OF pr] show ?thesis by simp
    next
      case (Inr p)
      obtain row' g1 where p: "p = (row', g1)" by (cases p)
      from Cons.IH[OF prs, of g1] Some Inr p show ?thesis
        by (auto simp: fill_rows_Cons bind_res_def simp del: fill_rows.simps
            split: option.splits sum.splits)
    qed
  qed
qed

lemma fill_wall_no_error:
  "all_positive (wall self) \<Longrightarrow> fill_wall_with_bricks self l sh g \<noteq> Some (Inl e)"
  using fill_rows_no_error[of "wall self" "l - 2" g e]
  by (auto simp: fill_wall_with_bricks_def bind_res_def split_beta Let_def
      split: option.splits sum.splits if_splits)





lemma demo_first_pass:
  "fill_wall_with_bricks \<lparr>wall = [[2], [1, 1], [1]], crossing_sign = ''x''\<rparr> 5 False (sconst 0)
     = Some (Inr (\<lparr>wall = [[2], [1, 1], [1, 1]], crossing_sign = ''x''\<rparr>, sconst 0))"
  by (simp add: fill_wall_with_bricks_def bind_res_def fill_loop.simps randint_def)

lemma demo_second_pass:
  "fill_wall_with_bricks \<lparr>wall = [[2], [1, 1], [1, 1]], crossing_sign = ''x''\<rparr> (5 + 3) False (sconst 0)
     = Some (Inr (\<lparr>wall = [[2, 3], [1, 1, 2], [1, 1, 2]], crossing_sign = ''x''\<rparr>, sconst 0))"
  by (simp add: fill_wall_with_bricks_def bind_res_def fill_loop.simps randint_def)

lemma demo_extra: "randint 3 max_extra_length (sconst 0) = Inr (3, sconst 0)"
  by (simp add: randint_def max_extra_length_def)

lemma demo_normalize:
  "normalize_wall \<lparr>wall = [[2], [1, 1], [1]], crossing_sign = ''x''\<rparr> (sconst 0)
     = Some (Inr (\<lparr>wall = [[2, 3], [1, 1, 2], [1, 1, 2]], crossing_sign = ''x''\<rparr>, sconst 0))"
proof -
  have a: "is_valid \<lparr>wall = [[2], [1, 1], [1]], crossing_sign = ''x''\<rparr> = Inr False"
    by (simp add: is_valid_def row_len_def)
  have b: "get_max_row_len \<lparr>wall = [[2], [1, 1], [1]], crossing_sign = ''x''\<rparr> = Inr 5"
    by (simp add: get_max_row_len_def row_len_def)
  have c: "is_valid \<lparr>wall = [[2], [1, 1], [1, 1]], crossing_sign = ''x''\<rparr> = Inr False"
    by (simp add: is_valid_def row_len_def)
  show ?thesis
    using demo_second_pass
    by (simp add: normalize_wall_def bind_res_def a b c demo_first_pass demo_extra)
qed


text \<open>
  Claim C7. \<^verbatim>\<open>normalize_wall\<close> on a valid wall returns at once, with the wall and the
  random source as they were; and when a call of \<^verbatim>\<open>normalize_wall\<close> returns, the wall
  is valid and a second call changes nothing.
\<close>

theorem normalize_wall_idempotent:
  "(is_valid self = Inr True \<longrightarrow> normalize_wall self g = Some (Inr (self, g))) \<and>
   (normalize_wall self g = Some (Inr (self', g')) \<longrightarrow>
      is_valid self' = Inr True \<and> normalize_wall self' g2 = Some (Inr (self', g2)))"
  using normalize_wall_noop normalize_wall_result_valid by blast

theorem normalize_wall_idempotent_witness:
  "is_valid \<lparr>wall = main_wall, crossing_sign = ''x''\<rparr> = Inr True \<and>
   normalize_wall \<lparr>wall = main_wall, crossing_sign = ''x''\<rparr> (sconst 1)
     = Some (Inr (\<lparr>wall = main_wall, crossing_sign = ''x''\<rparr>, sconst 1)) \<and>
   normalize_wall \<lparr>wall = [[2], [1, 1], [1]], crossing_sign = ''x''\<rparr> (sconst 0)
     = Some (Inr (\<lparr>wall = [[2, 3], [1, 1, 2], [1, 1, 2]], crossing_sign = ''x''\<rparr>, sconst 0)) \<and>
   normalize_wall \<lparr>wall = [[2, 3], [1, 1, 2], [1, 1, 2]], crossing_sign = ''x''\<rparr> (sconst 1)
     = Some (Inr (\<lparr>wall = [[2, 3], [1, 1, 2], [1, 1, 2]], crossing_sign = ''x''\<rparr>, sconst 1))"
proof -
  have v: "is_valid \<lparr>wall = main_wall, crossing_sign = ''x''\<rparr> = Inr True"
    by (simp add: is_valid_def row_len_def main_wall_def)
  from normalize_wall_idempotent[of "\<lparr>wall = main_wall, crossing_sign = ''x''\<rparr>" "sconst 1"] v
  have one: "normalize_wall \<lparr>wall = main_wall, crossing_sign = ''x''\<rparr> (sconst 1)
     = Some (Inr (\<lparr>wall = main_wall, crossing_sign = ''x''\<rparr>, sconst 1))" by simp
  from normalize_wall_idempotent[of
      "\<lparr>wall = [[2], [1, 1], [1]], crossing_sign = ''x''\<rparr>" "sconst 0"
      "\<lparr>wall = [[2, 3], [1, 1, 2], [1, 1, 2]], crossing_sign = ''x''\<rparr>" "sconst 0" "sconst 1"]
    demo_normalize v one
  show ?thesis by simp
qed

section \<open>Generation\<close>

lemma create_wall_cases:
  assumes "create_wall gw self rn rl g = Some (Inr (self', g'))"
  shows "\<exists>n g1 l g2.
           (rn = Some n \<and> g1 = g \<or> rn = None \<and> randint 1 max_rows_number g = Inr (n, g1)) \<and>
           1 \<le> n \<and>
           (rl = Some l \<and> g2 = g1 \<or> rl = None \<and> randint 10 max_row_length g1 = Inr (l, g2)) \<and>
           3 \<le> l \<and>
           wall_setter gw (replicate (nat n) ([]::int list)) = Inr (replicate (nat n) []) \<and>
           fill_wall_with_bricks (self\<lparr>wall := replicate (nat n) []\<rparr>) l True g2
             = Some (Inr (self', g'))"
proof -
  obtain n g1 where n: "(case rn of None \<Rightarrow> Some (randint 1 max_rows_number g)
                          | Some n \<Rightarrow> Some (Inr (n, g))) = Some (Inr (n, g1))"
    using assms
    by (cases rn; cases "randint 1 max_rows_number g")
       (auto simp: create_wall_def bind_res_def)
  then have n': "rn = Some n \<and> g1 = g \<or> rn = None \<and> randint 1 max_rows_number g = Inr (n, g1)"
    by (cases rn) auto
  from assms n have n1: "1 \<le> n"
    by (cases "n < 1") (auto simp: create_wall_def bind_res_def)
  with assms n have rest: "bind_res
            (case rl of
               None \<Rightarrow> Some (randint 10 max_row_length g1)
             | Some l \<Rightarrow> Some (Inr (l, g1)))
            (\<lambda>(row_length, g2).
               if row_length < 3 then Some (Inl ValueError)
               else bind_res (Some (wall_setter gw (replicate (nat n) [])))
                 (\<lambda>w. fill_wall_with_bricks (self\<lparr>wall := w\<rparr>) row_length True g2))
          = Some (Inr (self', g'))"
    by (simp add: create_wall_def bind_res_def)
  obtain l g2 where l: "(case rl of None \<Rightarrow> Some (randint 10 max_row_length g1)
                          | Some l \<Rightarrow> Some (Inr (l, g1))) = Some (Inr (l, g2))"
    using rest
    by (cases rl; cases "randint 10 max_row_length g1") (auto simp: bind_res_def)
  then have l': "rl = Some l \<and> g2 = g1 \<or> rl = None \<and> randint 10 max_row_length g1 = Inr (l, g2)"
    by (cases rl) auto
  from rest l have l3: "3 \<le> l"
    by (cases "l < 3") (auto simp: bind_res_def)
  with rest l have rest2: "bind_res (Some (wall_setter gw (replicate (nat n) ([]::int list))))
                 (\<lambda>w. fill_wall_with_bricks (self\<lparr>wall := w\<rparr>) l True g2)
          = Some (Inr (self', g'))"
    by (simp add: bind_res_def)
  then have ws: "wall_setter gw (replicate (nat n) ([]::int list)) = Inr (replicate (nat n) [])"
    by (auto simp: bind_res_def wall_setter_def split: option.splits if_splits)
  with rest2 have f: "fill_wall_with_bricks (self\<lparr>wall := replicate (nat n) []\<rparr>) l True g2
             = Some (Inr (self', g'))"
    by (simp add: bind_res_def)
  from n' n1 l' l3 ws f show ?thesis by blast
qed

lemma fill_fresh_rows:
  assumes "fill_wall_with_bricks (self\<lparr>wall := replicate k []\<rparr>) l sh g = Some (Inr (self', g'))"
    and "3 \<le> l"
  shows "map row_len (wall self') = replicate k l"
proof -
  have "map (widen l) (map row_len (replicate k [])) = replicate k l"
    using assms(2) by (simp add: row_len_def widen_def)
  with fill_wall_lens[OF assms(1)] show ?thesis by simp
qed

text \<open>
  When \<^verbatim>\<open>create_wall\<close> returns, with the row count and the row length supplied or
  drawn, the row count is at least 1 and the row length at least 3, the wall has that
  many rows, every row has that derived length, and \<^verbatim>\<open>is_valid()\<close> returns \<^verbatim>\<open>True\<close>.
\<close>

lemma create_wall_valid:
  "create_wall gw self rn rl g = Some (Inr (self', g')) \<longrightarrow>
     is_valid self' = Inr True \<and>
     (\<exists>n l. 1 \<le> n \<and> 3 \<le> l \<and>
        (rn = Some n \<or> rn = None \<and> n \<le> max_rows_number) \<and>
        (rl = Some l \<or> rl = None \<and> 10 \<le> l \<and> l \<le> max_row_length) \<and>
        length (wall self') = nat n \<and>
        list_all (\<lambda>r. row_len r = l) (wall self'))"
proof
  assume a: "create_wall gw self rn rl g = Some (Inr (self', g'))"
  from create_wall_cases[OF a] obtain n g1 l g2 where
    n: "rn = Some n \<and> g1 = g \<or> rn = None \<and> randint 1 max_rows_number g = Inr (n, g1)"
    and n1: "1 \<le> n"
    and l: "rl = Some l \<and> g2 = g1 \<or> rl = None \<and> randint 10 max_row_length g1 = Inr (l, g2)"
    and l3: "3 \<le> l"
    and f: "fill_wall_with_bricks (self\<lparr>wall := replicate (nat n) []\<rparr>) l True g2
             = Some (Inr (self', g'))"
    by blast
  have lens: "map row_len (wall self') = replicate (nat n) l"
    by (rule fill_fresh_rows[OF f l3])
  then have len: "length (wall self') = nat n"
    by (metis length_map length_replicate)
  with n1 have ne: "wall self' \<noteq> []" by auto
  have all: "list_all (\<lambda>m. m = l) (map row_len (wall self'))"
    unfolding lens by (simp add: list_all_iff)
  then have all': "list_all (\<lambda>r. row_len r = l) (wall self')" by (simp add: list_all_iff)
  have v: "is_valid self' = Inr True" by (rule all_equal_valid[OF ne all])
  from n randint_Inr have n': "rn = Some n \<or> rn = None \<and> n \<le> max_rows_number" by blast
  from l randint_Inr have l': "rl = Some l \<or> rl = None \<and> 10 \<le> l \<and> l \<le> max_row_length" by blast
  from v n1 l3 n' l' len all' 
  show "is_valid self' = Inr True \<and>
     (\<exists>n l. 1 \<le> n \<and> 3 \<le> l \<and>
        (rn = Some n \<or> rn = None \<and> n \<le> max_rows_number) \<and>
        (rl = Some l \<or> rl = None \<and> 10 \<le> l \<and> l \<le> max_row_length) \<and>
        length (wall self') = nat n \<and>
        list_all (\<lambda>r. row_len r = l) (wall self'))" by blast
qed

lemma demo_create:
  "create_wall (Some (map (map PyInt) main_wall)) \<lparr>wall = [], crossing_sign = ''x''\<rparr>
      (Some 2) (Some 8) (sconst 0)
     = Some (Inr (\<lparr>wall = [[1, 2, 1], [1, 2, 1]], crossing_sign = ''x''\<rparr>, sconst 0))"
proof -
  have f: "fill_loop 6 0 [] (sconst 0) = Some (Inr ([1, 1, 2], sconst 0))"
    by (simp add: fill_loop.simps randint_def)
  have s: "shuffle [1, 1, 2::int] (sconst 0) = ([1, 2, 1], sconst 0)"
    by (simp add: shuffle_def numeral_2_eq_2)
  have n: "replicate 2 ([]::int list) = [[], []]" by (simp add: numeral_2_eq_2)
  show ?thesis
    by (simp add: create_wall_def bind_res_def wall_setter_def main_wall_def
        fill_wall_with_bricks_def f s n)
qed

lemma create_wall_demo_valid:
  "create_wall (Some (map (map PyInt) main_wall)) \<lparr>wall = [], crossing_sign = ''x''\<rparr>
      (Some 2) (Some 8) (sconst 0)
     = Some (Inr (\<lparr>wall = [[1, 2, 1], [1, 2, 1]], crossing_sign = ''x''\<rparr>, sconst 0)) \<and>
   is_valid \<lparr>wall = [[1, 2, 1], [1, 2, 1]], crossing_sign = ''x''\<rparr> = Inr True"
  using create_wall_valid[of "Some (map (map PyInt) main_wall)"
      "\<lparr>wall = [], crossing_sign = ''x''\<rparr>" "Some 2" "Some 8" "sconst 0"
      "\<lparr>wall = [[1, 2, 1], [1, 2, 1]], crossing_sign = ''x''\<rparr>" "sconst 0"]
    demo_create
  by simp

section \<open>Positive bricks\<close>

lemma normalize_wall_positive:
  assumes "normalize_wall self g = Some (Inr (self', g'))" and "all_positive (wall self)"
  shows "all_positive (wall self')"
proof -
  from normalize_wall_cases[OF assms(1)]
  consider (noop) "self' = self"
    | (one) m g1 where "fill_wall_with_bricks self m False g = Some (Inr (self', g1))"
    | (two) m s1 g1 e g2 where
        "fill_wall_with_bricks self m False g = Some (Inr (s1, g1))"
        "fill_wall_with_bricks s1 (m + e) False g2 = Some (Inr (self', g'))"
    by blast
  then show ?thesis
  proof cases
    case noop
    with assms(2) show ?thesis by simp
  next
    case one
    from fill_wall_positive[OF one assms(2)] show ?thesis .
  next
    case two
    from fill_wall_positive[OF two(2) fill_wall_positive[OF two(1) assms(2)]] show ?thesis .
  qed
qed

lemma create_wall_positive:
  assumes "create_wall gw self rn rl g = Some (Inr (self', g'))"
  shows "all_positive (wall self')"
proof -
  from create_wall_cases[OF assms] obtain n l g2 where
    f: "fill_wall_with_bricks (self\<lparr>wall := replicate (nat n) []\<rparr>) l True g2
             = Some (Inr (self', g'))"
    by blast
  have "all_positive (wall (self\<lparr>wall := replicate (nat n) []\<rparr>))"
    by (simp add: all_positive_def list_all_iff)
  from fill_wall_positive[OF f this] show ?thesis .
qed

text \<open>
  Claim C9. Every brick that a run of the fill loop appends is at least 1. Hence, on a
  wall whose bricks are all positive, \<^verbatim>\<open>fill_wall_with_bricks\<close> and \<^verbatim>\<open>normalize_wall\<close>
  return a wall whose bricks are all positive, shuffling the rows keeps them positive,
  and \<^verbatim>\<open>create_wall\<close> returns a wall whose bricks are all positive.
\<close>

theorem bricks_stay_positive:
  "(fill_loop w cnt row g = Some (Inr (row', g1)) \<longrightarrow>
      (\<exists>ys. row' = row @ ys \<and> list_all (\<lambda>b. 1 \<le> b) ys)) \<and>
   (all_positive (wall self) \<and> fill_wall_with_bricks self l sh g = Some (Inr (self', g')) \<longrightarrow>
      all_positive (wall self')) \<and>
   (create_wall gw self rn rl g = Some (Inr (self', g')) \<longrightarrow> all_positive (wall self')) \<and>
   (all_positive (wall self) \<and> normalize_wall self g = Some (Inr (self', g')) \<longrightarrow>
      all_positive (wall self')) \<and>
   (all_positive rows \<longrightarrow> all_positive (fst (shuffle_each rows g)))"
proof (intro conjI impI)
  assume "fill_loop w cnt row g = Some (Inr (row', g1))"
  from fill_loop_post[OF this] show "\<exists>ys. row' = row @ ys \<and> list_all (\<lambda>b. 1 \<le> b) ys"
    by (auto simp: added_ok_def)
next
  assume "all_positive (wall self) \<and> fill_wall_with_bricks self l sh g = Some (Inr (self', g'))"
  then show "all_positive (wall self')" using fill_wall_positive by blast
next
  assume "create_wall gw self rn rl g = Some (Inr (self', g'))"
  then show "all_positive (wall self')" by (rule create_wall_positive)
next
  assume "all_positive (wall self) \<and> normalize_wall self g = Some (Inr (self', g'))"
  then show "all_positive (wall self')" using normalize_wall_positive by blast
next
  assume "all_positive rows"
  with list_all2_mset_positive[OF shuffle_each_mset[of rows g]]
  show "all_positive (fst (shuffle_each rows g))" by simp
qed

theorem bricks_stay_positive_witness:
  "fill_loop 6 4 [1, 1] (sconst 0) = Some (Inr ([1, 1] @ [2], sconst 0)) \<and>
   all_positive (wall \<lparr>wall = [[2], [1, 1], [1::int]], crossing_sign = ''x''\<rparr>) \<and>
   fill_wall_with_bricks \<lparr>wall = [[2], [1, 1], [1]], crossing_sign = ''x''\<rparr> 5 False (sconst 0)
     = Some (Inr (\<lparr>wall = [[2], [1, 1], [1, 1]], crossing_sign = ''x''\<rparr>, sconst 0)) \<and>
   all_positive (wall \<lparr>wall = [[2], [1, 1], [1, 1::int]], crossing_sign = ''x''\<rparr>) \<and>
   create_wall (Some (map (map PyInt) main_wall)) \<lparr>wall = [], crossing_sign = ''x''\<rparr>
      (Some 2) (Some 8) (sconst 0)
     = Some (Inr (\<lparr>wall = [[1, 2, 1], [1, 2, 1]], crossing_sign = ''x''\<rparr>, sconst 0)) \<and>
   all_positive (wall \<lparr>wall = [[1, 2, 1], [1, 2, 1::int]], crossing_sign = ''x''\<rparr>) \<and>
   normalize_wall \<lparr>wall = [[2], [1, 1], [1]], crossing_sign = ''x''\<rparr> (sconst 0)
     = Some (Inr (\<lparr>wall = [[2, 3], [1, 1, 2], [1, 1, 2]], crossing_sign = ''x''\<rparr>, sconst 0)) \<and>
   all_positive (wall \<lparr>wall = [[2, 3], [1, 1, 2], [1, 1, 2::int]], crossing_sign = ''x''\<rparr>) \<and>
   all_positive (fst (shuffle_each [[2], [1, 1], [1]] (sconst 0)))"
proof -
  have a: "fill_loop 6 4 [1, 1] (sconst 0) = Some (Inr ([1, 1, 2], sconst 0))"
    by (simp add: fill_loop.simps randint_def)
  have p: "all_positive (wall \<lparr>wall = [[2], [1, 1], [1::int]], crossing_sign = ''x''\<rparr>)"
    "all_positive [[2], [1, 1], [1::int]]"
    by (simp_all add: all_positive_def)
  from bricks_stay_positive[of 6 4 "[1, 1]" "sconst 0" "[1, 1, 2]" "sconst 0"
      "\<lparr>wall = [[2], [1, 1], [1]], crossing_sign = ''x''\<rparr>" 5 False
      "\<lparr>wall = [[2], [1, 1], [1, 1]], crossing_sign = ''x''\<rparr>" "sconst 0"
      _ _ _ "[[2], [1, 1], [1]]"]
    bricks_stay_positive[of _ _ _ "sconst 0" _ _
      "\<lparr>wall = [], crossing_sign = ''x''\<rparr>" _ _
      "\<lparr>wall = [[1, 2, 1], [1, 2, 1]], crossing_sign = ''x''\<rparr>" "sconst 0"
      "Some (map (map PyInt) main_wall)" "Some 2" "Some 8"]
    bricks_stay_positive[of _ _ _ "sconst 0" _ _
      "\<lparr>wall = [[2], [1, 1], [1]], crossing_sign = ''x''\<rparr>" _ _
      "\<lparr>wall = [[2, 3], [1, 1, 2], [1, 1, 2]], crossing_sign = ''x''\<rparr>" "sconst 0"]
    a p demo_first_pass demo_create demo_normalize
  show ?thesis by simp
qed

section \<open>Drawing with a crossline\<close>

lemma draw_wall_border_ok:
  "get_max_row_len self = Inr m \<Longrightarrow>
     fst (draw_wall_border self p out) = None \<and>
     length (snd (draw_wall_border self p out)) = length out + 1"
  by (simp add: draw_wall_border_def Let_def)

lemma cross_rows_length: "length (cross_rows rows sign position out) = length out + length rows"
  by (induction rows arbitrary: out) auto

text \<open>
  On a wall without rows \<^verbatim>\<open>get_max_row_len()\<close> has no value: \<^verbatim>\<open>max\<close> raises, and so
  does the method, at every position, again with nothing printed.
\<close>

lemma draw_wall_crossline_no_rows:
  "wall self = [] \<Longrightarrow> draw_wall_crossline self position out = (Some ValueError, out)"
  by (simp add: draw_wall_crossline_def get_max_row_len_def)

text \<open>
  Claim C10. With \<open>m\<close> the value of \<^verbatim>\<open>get_max_row_len()\<close>, \<^verbatim>\<open>draw_wall_crossline(position)\<close>
  raises exactly when \<open>position \<le> 0\<close> or \<open>position \<ge> m - 1\<close>; the error is a
  \<^verbatim>\<open>ValueError\<close> and the output is then as it was before the call. Otherwise two border
  lines and one line per row are printed.
\<close>

theorem draw_wall_crossline_edges:
  "get_max_row_len self = Inr m \<longrightarrow>
     (fst (draw_wall_crossline self position out) \<noteq> None
        \<longleftrightarrow> position \<le> 0 \<or> position \<ge> m - 1) \<and>
     (position \<le> 0 \<or> position \<ge> m - 1 \<longrightarrow>
        draw_wall_crossline self position out = (Some ValueError, out)) \<and>
     (\<not> (position \<le> 0 \<or> position \<ge> m - 1) \<longrightarrow>
        length (snd (draw_wall_crossline self position out)) = length out + length (wall self) + 2)"
proof
  assume m: "get_max_row_len self = Inr m"
  have bad: "position \<le> 0 \<or> position \<ge> m - 1 \<Longrightarrow>
        draw_wall_crossline self position out = (Some ValueError, out)"
    using m by (auto simp: draw_wall_crossline_def)
  have good: "fst (draw_wall_crossline self position out) = None \<and>
        length (snd (draw_wall_crossline self position out)) = length out + length (wall self) + 2"
    if ok: "\<not> (position \<le> 0 \<or> position \<ge> m - 1)"
  proof -
    obtain out1 where b1: "draw_wall_border self (Some position) out = (None, out1)"
      and l1: "length out1 = length out + 1"
      using draw_wall_border_ok[OF m, of "Some position" out]
      by (cases "draw_wall_border self (Some position) out") auto
    let ?mid = "cross_rows (wall self) (crossing_sign self) position out1"
    have eq: "draw_wall_crossline self position out = draw_wall_border self (Some position) ?mid"
      using ok m b1 by (simp add: draw_wall_crossline_def)
    from draw_wall_border_ok[OF m, of "Some position" ?mid] l1
    show ?thesis unfolding eq by (simp add: cross_rows_length)
  qed
  from bad good
  show "(fst (draw_wall_crossline self position out) \<noteq> None
        \<longleftrightarrow> position \<le> 0 \<or> position \<ge> m - 1) \<and>
     (position \<le> 0 \<or> position \<ge> m - 1 \<longrightarrow>
        draw_wall_crossline self position out = (Some ValueError, out)) \<and>
     (\<not> (position \<le> 0 \<or> position \<ge> m - 1) \<longrightarrow>
        length (snd (draw_wall_crossline self position out)) = length out + length (wall self) + 2)"
    by (metis fst_conv option.distinct(1))
qed

theorem draw_wall_crossline_edges_witness:
  "get_max_row_len \<lparr>wall = [[2, 3], [1, 1, 2]], crossing_sign = ''x''\<rparr> = Inr 8 \<and>
   draw_wall_crossline \<lparr>wall = [[2, 3], [1, 1, 2]], crossing_sign = ''x''\<rparr> 7 [''before'']
     = (Some ValueError, [''before'']) \<and>
   draw_wall_crossline \<lparr>wall = [[2, 3], [1, 1, 2]], crossing_sign = ''x''\<rparr> 0 [''before'']
     = (Some ValueError, [''before'']) \<and>
   draw_wall_crossline \<lparr>wall = [[2, 3], [1, 1, 2]], crossing_sign = ''x''\<rparr> 6 [''before'']
     = (None, [''before'', ''+-----x+'', ''|  |  x|'', ''| | | x|'', ''+-----x+''])"
proof -
  have m: "get_max_row_len \<lparr>wall = [[2, 3], [1, 1, 2]], crossing_sign = ''x''\<rparr> = Inr 8"
    by (simp add: get_max_row_len_def row_len_def)
  have d: "draw_wall_crossline \<lparr>wall = [[2, 3], [1, 1, 2]], crossing_sign = ''x''\<rparr> 6 [''before'']
     = (None, [''before'', ''+-----x+'', ''|  |  x|'', ''| | | x|'', ''+-----x+''])"
    by (simp add: draw_wall_crossline_def draw_wall_border_def m slice_to_def slice_from_def
        slice_bound_def Let_def eval_nat_numeral)
  from draw_wall_crossline_edges[of "\<lparr>wall = [[2, 3], [1, 1, 2]], crossing_sign = ''x''\<rparr>" 8 7 "[''before'']"]
    draw_wall_crossline_edges[of "\<lparr>wall = [[2, 3], [1, 1, 2]], crossing_sign = ''x''\<rparr>" 8 0 "[''before'']"]
    m d
  show ?thesis by simp
qed

section \<open>Construction from a matrix\<close>

text \<open>
  Claim C5, as stated: a supplied matrix with a brick that is not an integer or not
  positive makes the constructor raise \<^verbatim>\<open>TypeError\<close> or \<^verbatim>\<open>ValueError\<close>. A script that
  binds \<^verbatim>\<open>wall = [[0, -3], [2]]\<close> and calls \<^verbatim>\<open>BrickWall(wall)\<close> has its matrix accepted:
  the matrix tested is the matrix supplied, all its entries are integers, and no line of
  the class looks at their sign.
\<close>

theorem BrickWall_init_counterexample:
  "BrickWall_init (Some [[PyInt 0, PyInt (- 3)], [PyInt 2]]) [[PyInt 0, PyInt (- 3)], [PyInt 2]]
     = Inr \<lparr>wall = [[PyInt 0, PyInt (- 3)], [PyInt 2]], crossing_sign = ''x''\<rparr>"
  by (simp add: BrickWall_init_def wall_setter_def crossing_sign_setter_def)

text \<open>
  Claim C5, amended. The constructor tests no brick length for being positive and never
  raises \<^verbatim>\<open>ValueError\<close>; when it returns, the wall is the supplied matrix, unchanged, and
  the crossing sign is \<^verbatim>\<open>"x"\<close>. Where the matrix tested is the matrix supplied, it
  raises \<^verbatim>\<open>TypeError\<close> exactly when an entry is not an integer, and a matrix of integers,
  whatever their signs, is accepted.
\<close>

theorem BrickWall_init_no_sign_test:
  "BrickWall_init gw v \<noteq> Inl ValueError \<and>
   (BrickWall_init gw v = Inr self \<longrightarrow> wall self = v \<and> crossing_sign self = ''x'') \<and>
   BrickWall_init (Some u) u
     = (if list_all (list_all isinstance_int) u
        then Inr \<lparr>wall = u, crossing_sign = ''x''\<rparr> else Inl TypeError) \<and>
   BrickWall_init (Some (map (map PyInt) a)) (map (map PyInt) a)
     = Inr \<lparr>wall = map (map PyInt) a, crossing_sign = ''x''\<rparr>"
proof -
  have ints: "list_all (list_all isinstance_int) (map (map PyInt) a)"
    by (simp add: list_all_iff)
  show ?thesis
    using ints
    by (auto simp: BrickWall_init_def wall_setter_def crossing_sign_setter_def
        split: option.splits if_splits)
qed

theorem BrickWall_init_no_sign_test_witness:
  "BrickWall_init (Some [[PyInt 0, PyInt (- 3)], [PyInt 2]]) [[PyInt 0, PyInt (- 3)], [PyInt 2]]
     = Inr \<lparr>wall = [[PyInt 0, PyInt (- 3)], [PyInt 2]], crossing_sign = ''x''\<rparr> \<and>
   wall \<lparr>wall = [[PyInt 0, PyInt (- 3)], [PyInt 2]], crossing_sign = ''x''\<rparr>
     = [[PyInt 0, PyInt (- 3)], [PyInt 2]] \<and>
   BrickWall_init (Some [[PyInt 2, PyStr ''a''], [PyFloat (1 / 2)]])
       [[PyInt 2, PyStr ''a''], [PyFloat (1 / 2)]]
     = Inl TypeError"
  using BrickWall_init_no_sign_test[of "Some [[PyInt 0, PyInt (- 3)], [PyInt 2]]"
      "[[PyInt 0, PyInt (- 3)], [PyInt 2]]"
      "\<lparr>wall = [[PyInt 0, PyInt (- 3)], [PyInt 2]], crossing_sign = ''x''\<rparr>"
      "[[PyInt 2, PyStr ''a''], [PyFloat (1 / 2)]]" "[]"]
    BrickWall_init_no_sign_test[of "Some [[PyInt 0, PyInt (- 3)], [PyInt 2]]"
      "[[PyInt 0, PyInt (- 3)], [PyInt 2]]"
      "\<lparr>wall = [[PyInt 0, PyInt (- 3)], [PyInt 2]], crossing_sign = ''x''\<rparr>"
      "[[PyInt 0, PyInt (- 3)], [PyInt 2]]" "[]"]
  by simp

section \<open>Termination of the fill loop\<close>

lemma recurring_one_stl: "recurring_one g \<Longrightarrow> recurring_one (stl g)"
  unfolding recurring_one_def
proof
  fix i
  assume a: "\<forall>i. \<exists>j\<ge>i. g !! j = 0"
  then obtain j where j: "Suc i \<le> j" "g !! j = 0" by blast
  then obtain j' where "j = Suc j'" by (cases j) auto
  with j show "\<exists>j\<ge>i. stl g !! j = 0" by auto
qed

lemma fill_loop_unfold_running:
  assumes "cnt < w" and "1 \<le> w"
  shows "fill_loop w cnt row g =
     (let num = 1 + int (shd g mod nat w) in
      if (w - 1 \<le> num \<and> num \<le> w) \<and> cnt = 0 then Some (Inr (row @ [w], stl g))
      else if w - cnt \<le> 3 then Some (Inr (row @ [w - cnt], stl g))
      else if w - cnt \<ge> num \<and> w - cnt \<noteq> num + 1
        then fill_loop w (cnt + (num + 1)) (row @ [num]) (stl g)
      else fill_loop w cnt row (stl g))"
  using assms by (subst fill_loop.simps) (simp add: randint_def Let_def)

lemma fill_loop_unfold_done: "\<not> cnt < w \<Longrightarrow> fill_loop w cnt row g = Some (Inr (row, g))"
  by (subst fill_loop.simps) simp

lemma fill_loop_unfold_error: "cnt < w \<Longrightarrow> w < 1 \<Longrightarrow> fill_loop w cnt row g = Some (Inl ValueError)"
  by (subst fill_loop.simps) (simp add: randint_def)

lemma fill_loop_next_one:
  assumes run: "cnt < w" "1 \<le> w"
    and IH: "\<And>cnt' row' g'. nat (w - cnt') < nat (w - cnt) \<Longrightarrow> recurring_one g'
               \<Longrightarrow> \<exists>res. fill_loop w cnt' row' g' = Some res"
  shows "g !! j = 0 \<Longrightarrow> recurring_one g \<Longrightarrow> \<exists>res. fill_loop w cnt row g = Some res"
proof (induction j arbitrary: g)
  case 0
  then have num: "1 + int (shd g mod nat w) = 1" by simp
  have acc: "\<exists>res. fill_loop w (cnt + (1 + 1)) (row @ [1]) (stl g) = Some res"
    using run by (intro IH recurring_one_stl[OF 0(2)]) simp
  show ?case
    by (subst fill_loop_unfold_running[OF run]) (use acc num in \<open>auto simp: Let_def\<close>)
next
  case (Suc j)
  let ?num = "1 + int (shd g mod nat w)"
  have rs: "recurring_one (stl g)" by (rule recurring_one_stl[OF Suc.prems(2)])
  have rej: "\<exists>res. fill_loop w cnt row (stl g) = Some res"
    using Suc.prems(1) by (intro Suc.IH rs) simp
  have acc: "\<exists>res. fill_loop w (cnt + (?num + 1)) (row @ [?num]) (stl g) = Some res"
    using run by (intro IH rs) simp
  show ?case
    by (subst fill_loop_unfold_running[OF run]) (use acc rej in \<open>auto simp: Let_def\<close>)
qed

lemma fill_loop_terminates:
  "recurring_one g \<Longrightarrow> \<exists>res. fill_loop w cnt row g = Some res"
proof (induction "nat (w - cnt)" arbitrary: cnt row g rule: less_induct)
  case less
  show ?case
  proof (cases "cnt < w")
    case False
    then show ?thesis by (simp add: fill_loop_unfold_done)
  next
    case True
    show ?thesis
    proof (cases "1 \<le> w")
      case False
      with True show ?thesis by (simp add: fill_loop_unfold_error)
    next
      case w: True
      from less.prems obtain j where j: "g !! j = 0"
        unfolding recurring_one_def by blast
      show ?thesis
        by (rule fill_loop_next_one[OF True w _ j less.prems]) (rule less.hyps)
    qed
  qed
qed

lemma fill_loop_keeps_recurring:
  assumes "fill_loop w cnt row g = Some (Inr (row', g'))" and "recurring_one g"
  shows "recurring_one g'"
proof -
  have "fill_loop w cnt row g = Some res \<Longrightarrow>
          recurring_one g \<longrightarrow> (case res of Inl e \<Rightarrow> True | Inr (r, g'') \<Rightarrow> recurring_one g'')"
    for res
  proof (induction w cnt row g res rule: fill_loop.raw_induct[rotated 1, consumes 1])
    case (1 fill_loop w cnt row g res)
    show ?case
    proof
      assume rg: "recurring_one g"
      then have rs: "recurring_one (stl g)" by (rule recurring_one_stl)
      show "case res of Inl e \<Rightarrow> True | Inr (r, g'') \<Rightarrow> recurring_one g''"
      proof (cases "cnt < w \<and> 1 \<le> w")
        case False
        with 1(2) rg show ?thesis
          by (auto simp: randint_def split: if_splits)
      next
        case True
        let ?num = "1 + int (shd g mod nat w)"
        from True 1(2) have
          "res = Inr (row @ [w], stl g) \<or> res = Inr (row @ [w - cnt], stl g) \<or>
           fill_loop w (cnt + (?num + 1)) (row @ [?num]) (stl g) = Some res \<or>
           fill_loop w cnt row (stl g) = Some res"
          by (auto simp: randint_def split: if_splits)
        with 1(1) rs show ?thesis by auto
      qed
    qed
  qed
  from this[OF assms(1)] assms(2) show ?thesis by simp
qed

lemma fill_rows_terminates:
  "recurring_one g \<Longrightarrow>
     \<exists>res. fill_rows w rows g = Some res \<and>
        (case res of Inl e \<Rightarrow> True | Inr (rows', g') \<Rightarrow> recurring_one g')"
proof (induction rows arbitrary: g)
  case Nil
  then show ?case by simp
next
  case (Cons row rows)
  from fill_loop_terminates[OF Cons.prems]
  obtain res where res: "fill_loop w (sum_list row + int (length row)) row g = Some res" by blast
  show ?case
  proof (cases res)
    case (Inl e)
    with res show ?thesis
      by (simp add: fill_rows_Cons bind_res_def del: fill_rows.simps)
  next
    case (Inr p)
    obtain row' g1 where p: "p = (row', g1)" by (cases p)
    from fill_loop_keeps_recurring[OF res[unfolded Inr p] Cons.prems]
    have "recurring_one g1" .
    from Cons.IH[OF this] obtain res2 where
      r2: "fill_rows w rows g1 = Some res2"
      and k: "case res2 of Inl e \<Rightarrow> True | Inr (rows', g') \<Rightarrow> recurring_one g'" by blast
    show ?thesis
    proof (cases res2)
      case (Inl e)
      with res Inr p r2 show ?thesis
        by (simp add: fill_rows_Cons bind_res_def del: fill_rows.simps)
    next
      case r: (Inr q)
      obtain rows' g2 where q: "q = (rows', g2)" by (cases q)
      with res Inr p r2 r k show ?thesis
        by (simp add: fill_rows_Cons bind_res_def del: fill_rows.simps)
    qed
  qed
qed

lemma fill_wall_terminates:
  assumes "recurring_one g"
  shows "\<exists>res. fill_wall_with_bricks self l sh g = Some res \<and>
           (\<not> sh \<longrightarrow> (case res of Inl e \<Rightarrow> True | Inr (s, g') \<Rightarrow> recurring_one g'))"
proof -
  from fill_rows_terminates[OF assms, of "l - 2" "wall self"]
  obtain res where r: "fill_rows (l - 2) (wall self) g = Some res"
    and k: "case res of Inl e \<Rightarrow> True | Inr (rows', g') \<Rightarrow> recurring_one g'" by blast
  show ?thesis
  proof (cases res)
    case (Inl e)
    with r show ?thesis by (simp add: fill_wall_with_bricks_def bind_res_def)
  next
    case (Inr p)
    obtain rows g1 where p: "p = (rows, g1)" by (cases p)
    with r Inr k show ?thesis
      by (simp add: fill_wall_with_bricks_def bind_res_def split_beta Let_def)
  qed
qed

lemma randint_keeps_recurring:
  "randint a b g = Inr (n, g') \<Longrightarrow> recurring_one g \<Longrightarrow> recurring_one g'"
  using randint_Inr recurring_one_stl by blast

lemma normalize_wall_terminates:
  assumes "recurring_one g"
  shows "\<exists>res. normalize_wall self g = Some res"
proof (cases "is_valid self")
  case (Inl e)
  then show ?thesis by (simp add: normalize_wall_def bind_res_def)
next
  case (Inr valid)
  show ?thesis
  proof (cases valid)
    case True
    with Inr show ?thesis by (simp add: normalize_wall_def bind_res_def)
  next
    case False
    with Inr have nv: "is_valid self = Inr False" by simp
    show ?thesis
    proof (cases "get_max_row_len self")
      case (Inl e)
      with nv show ?thesis by (simp add: normalize_wall_def bind_res_def)
    next
      case m: (Inr m)
      from fill_wall_terminates[OF assms, of self m False] obtain res1 where
        p1: "fill_wall_with_bricks self m False g = Some res1"
        and k1: "case res1 of Inl e \<Rightarrow> True | Inr (s, g') \<Rightarrow> recurring_one g'" by auto
      show ?thesis
      proof (cases res1)
        case (Inl e)
        with nv m p1 show ?thesis by (simp add: normalize_wall_def bind_res_def)
      next
        case r1: (Inr p)
        obtain s1 g1 where p: "p = (s1, g1)" by (cases p)
        with k1 r1 have rg1: "recurring_one g1" by simp
        show ?thesis
        proof (cases "is_valid s1")
          case (Inl e)
          with nv m p1 r1 p show ?thesis by (simp add: normalize_wall_def bind_res_def)
        next
          case v1: (Inr valid1)
          show ?thesis
          proof (cases valid1)
            case True
            with nv m p1 r1 p v1 show ?thesis by (simp add: normalize_wall_def bind_res_def)
          next
            case False
            show ?thesis
            proof (cases "randint 3 max_extra_length g1")
              case (Inl e)
              with nv m p1 r1 p v1 False show ?thesis
                by (simp add: normalize_wall_def bind_res_def)
            next
              case rd: (Inr q)
              obtain e g2 where q: "q = (e, g2)" by (cases q)
              from randint_keeps_recurring[OF rd[unfolded q] rg1] have "recurring_one g2" .
              from fill_wall_terminates[OF this, of s1 "m + e" False] obtain res2 where
                "fill_wall_with_bricks s1 (m + e) False g2 = Some res2" by auto
              with nv m p1 r1 p v1 False rd q show ?thesis
                by (simp add: normalize_wall_def bind_res_def)
            qed
          qed
        qed
      qed
    qed
  qed
qed

lemma create_wall_terminates:
  assumes "recurring_one g"
  shows "\<exists>res. create_wall gw self rn rl g = Some res"
proof -
  have draw: "\<exists>r. (case a of None \<Rightarrow> Some (randint lo hi g0) | Some n \<Rightarrow> Some (Inr (n, g0))) = Some r \<and>
            (case r of Inl e \<Rightarrow> True | Inr (n, g1) \<Rightarrow> recurring_one g0 \<longrightarrow> recurring_one g1)"
    for a lo hi g0
    by (cases a; cases "randint lo hi g0") (auto dest: randint_keeps_recurring)
  from draw[where a = rn and lo = 1 and hi = max_rows_number and ?g0.0 = g] obtain r1 where
    d1: "(case rn of None \<Rightarrow> Some (randint 1 max_rows_number g) | Some n \<Rightarrow> Some (Inr (n, g))) = Some r1"
    and k1: "case r1 of Inl e \<Rightarrow> True | Inr (n, g1) \<Rightarrow> recurring_one g \<longrightarrow> recurring_one g1"
    by blast
  show ?thesis
  proof (cases r1)
    case (Inl e)
    with d1 show ?thesis by (simp add: create_wall_def bind_res_def)
  next
    case (Inr p)
    obtain n g1 where p: "p = (n, g1)" by (cases p)
    with k1 Inr assms have rg1: "recurring_one g1" by simp
    from draw[where a = rl and lo = 10 and hi = max_row_length and ?g0.0 = g1] obtain r2 where
      d2: "(case rl of None \<Rightarrow> Some (randint 10 max_row_length g1) | Some l \<Rightarrow> Some (Inr (l, g1))) = Some r2"
      and k2: "case r2 of Inl e \<Rightarrow> True | Inr (l, g2) \<Rightarrow> recurring_one g1 \<longrightarrow> recurring_one g2"
      by blast
    show ?thesis
    proof (cases r2)
      case (Inl e)
      with d1 Inr p d2 show ?thesis by (simp add: create_wall_def bind_res_def)
    next
      case r: (Inr q)
      obtain l g2 where q: "q = (l, g2)" by (cases q)
      with k2 r rg1 have rg2: "recurring_one g2" by simp
      show ?thesis
      proof (cases "wall_setter gw (replicate (nat n) ([]::int list))")
        case (Inl e)
        with d1 Inr p d2 r q show ?thesis by (simp add: create_wall_def bind_res_def)
      next
        case ws: (Inr w)
        from fill_wall_terminates[OF rg2, of "self\<lparr>wall := w\<rparr>" l True] obtain res where
          "fill_wall_with_bricks (self\<lparr>wall := w\<rparr>) l True g2 = Some res" by auto
        with d1 Inr p d2 r q ws show ?thesis by (simp add: create_wall_def bind_res_def)
      qed
    qed
  qed
qed

lemma stuck_run: "fill_loop 10 2 [1] (sconst 9) = None"
proof (rule ccontr)
  assume "fill_loop 10 2 [1] (sconst 9) \<noteq> None"
  then obtain res where r: "fill_loop 10 2 [1] (sconst 9) = Some res" by auto
  have "fill_loop w cnt row g = Some res \<Longrightarrow> \<not> (w = 10 \<and> cnt = 2 \<and> g = sconst 9)"
    for w cnt row g
  proof (induction w cnt row g res rule: fill_loop.raw_induct[rotated 1, consumes 1])
    case (1 fill_loop w cnt row g res)
    show ?case
    proof
      assume s: "w = 10 \<and> cnt = 2 \<and> g = sconst 9"
      then have g: "w = 10" "cnt = 2" "g = sconst 9" by simp_all
      have st: "stl (sconst (9::nat)) = sconst 9" by simp
      have sh: "shd (sconst (9::nat)) = 9" by simp
      from 1(2) have "fill_loop 10 2 row (stl (sconst 9)) = Some res"
        unfolding g randint_def sh by (simp del: siterate.simps)
      then have "fill_loop 10 2 row (sconst 9) = Some res" unfolding st .
      from 1(1)[OF this] show False by (simp add: id_def)
    qed
  qed
  from this[OF r] show False by simp
qed

lemma sconst_recurring: "recurring_one (sconst 0)"
  by (auto simp: recurring_one_def)

text \<open>
  Claim C8, as stated: the loop ends for every width and every sequence of draws. At
  width 10, after a first draw of 1 has been accepted, 8 places remain; a source that
  draws 10 from then on is rejected for ever, and neither the loop nor
  \<^verbatim>\<open>fill_wall_with_bricks\<close> returns.
\<close>

theorem fill_loop_diverges_counterexample:
  "fill_loop 10 0 [] (0 ## sconst 9) = None \<and>
   fill_wall_with_bricks \<lparr>wall = [[]], crossing_sign = ''x''\<rparr> 12 False (0 ## sconst 9) = None"
proof -
  have a: "fill_loop 10 0 [] (0 ## sconst 9) = None"
    by (subst fill_loop.simps) (simp add: randint_def stuck_run)
  then show ?thesis by (simp add: fill_wall_with_bricks_def bind_res_def)
qed

text \<open>
  Claim C8, amended. For every width, the loop ends on every sequence of draws in which
  the draw 1 recurs for ever, with no limit from outside; so do \<^verbatim>\<open>fill_wall_with_bricks\<close>,
  \<^verbatim>\<open>normalize_wall\<close> with its two passes, and \<^verbatim>\<open>create_wall\<close>.
\<close>

theorem fill_loop_terminates_when_one_recurs:
  "recurring_one g \<longrightarrow>
     (\<exists>res. fill_loop w cnt row g = Some res) \<and>
     (\<exists>res. fill_wall_with_bricks self l sh g = Some res) \<and>
     (\<exists>res. normalize_wall self g = Some res) \<and>
     (\<exists>res. create_wall gw self rn rl g = Some res)"
proof
  assume r: "recurring_one g"
  from fill_wall_terminates[OF r, of self l sh]
  have "\<exists>res. fill_wall_with_bricks self l sh g = Some res" by blast
  with fill_loop_terminates[OF r, of w cnt row] normalize_wall_terminates[OF r, of self]
    create_wall_terminates[OF r, of gw self rn rl]
  show "(\<exists>res. fill_loop w cnt row g = Some res) \<and>
     (\<exists>res. fill_wall_with_bricks self l sh g = Some res) \<and>
     (\<exists>res. normalize_wall self g = Some res) \<and>
     (\<exists>res. create_wall gw self rn rl g = Some res)" by blast
qed

theorem fill_loop_terminates_when_one_recurs_witness:
  "recurring_one (sconst 0) \<and>
   fill_loop 10 0 [] (sconst 0) = Some (Inr ([1, 1, 1, 1, 2], sconst 0)) \<and>
   (\<exists>res. normalize_wall \<lparr>wall = [[2], [1, 1], [1]], crossing_sign = ''x''\<rparr> (sconst 0) = Some res)"
proof -
  have a: "fill_loop 10 0 [] (sconst 0) = Some (Inr ([1, 1, 1, 1, 2], sconst 0))"
    by (simp add: fill_loop.simps randint_def)
  from fill_loop_terminates_when_one_recurs[of "sconst 0" 10 0 "[]"
      "\<lparr>wall = [[2], [1, 1], [1]], crossing_sign = ''x''\<rparr>"] sconst_recurring a
  show ?thesis by simp
qed

section \<open>The crossline of a two-row wall\<close>

text \<open>
  Claim C2, as stated: on the wall \<open>[[2], [1, 1]]\<close> the search returns 3. The rows have
  lengths 4 and 5, so the search normalizes the wall first, with random bricks, and the
  result depends on the draws: drawing the extra length 10 and then the bricks 2 and 7
  for row 0 and 1 and 7 for row 1 gives both rows a seam at column 6, and the result 6.
\<close>

theorem crossline_two_rows_counterexample:
  "find_min_brick_crossline_position \<lparr>wall = [[2], [1, 1]], crossing_sign = ''x''\<rparr>
      (7 ## 14 ## 6 ## 0 ## 6 ## sconst 0)
     = Some (Inr (6, \<lparr>wall = [[2, 2, 7], [1, 1, 1, 7]], crossing_sign = ''x''\<rparr>, sconst 0))"
proof -
  have v: "is_valid \<lparr>wall = [[2], [1, 1]], crossing_sign = ''x''\<rparr> = Inr False"
    by (simp add: is_valid_def row_len_def)
  have m: "get_max_row_len \<lparr>wall = [[2], [1, 1]], crossing_sign = ''x''\<rparr> = Inr 5"
    by (simp add: get_max_row_len_def row_len_def)
  have p1: "fill_wall_with_bricks \<lparr>wall = [[2], [1, 1]], crossing_sign = ''x''\<rparr> 5 False
      (7 ## 14 ## 6 ## 0 ## 6 ## sconst 0)
     = Some (Inr (\<lparr>wall = [[2], [1, 1]], crossing_sign = ''x''\<rparr>, 7 ## 14 ## 6 ## 0 ## 6 ## sconst 0))"
    by (simp add: fill_wall_with_bricks_def bind_res_def fill_loop.simps)
  have e: "randint 3 max_extra_length (7 ## 14 ## 6 ## 0 ## 6 ## sconst 0)
     = Inr (10, 14 ## 6 ## 0 ## 6 ## sconst 0)"
    by (simp add: randint_def max_extra_length_def)
  have p2: "fill_wall_with_bricks \<lparr>wall = [[2], [1, 1]], crossing_sign = ''x''\<rparr> (5 + 10) False
      (14 ## 6 ## 0 ## 6 ## sconst 0)
     = Some (Inr (\<lparr>wall = [[2, 2, 7], [1, 1, 1, 7]], crossing_sign = ''x''\<rparr>, sconst 0))"
    by (simp add: fill_wall_with_bricks_def bind_res_def fill_loop.simps randint_def)
  have n: "normalize_wall \<lparr>wall = [[2], [1, 1]], crossing_sign = ''x''\<rparr>
      (7 ## 14 ## 6 ## 0 ## 6 ## sconst 0)
     = Some (Inr (\<lparr>wall = [[2, 2, 7], [1, 1, 1, 7]], crossing_sign = ''x''\<rparr>, sconst 0))"
    using p2 by (simp add: normalize_wall_def bind_res_def v m p1 e)
  show ?thesis
    by (simp add: find_min_brick_crossline_position_def bind_res_def v n)
qed

text \<open>
  Claim C2, amended. The wall \<open>[[2], [1, 1]]\<close> is not valid, so
  \<^verbatim>\<open>find_min_brick_crossline_position\<close> normalizes it first. When the extra length drawn
  is 3, whatever is drawn afterwards, the wall becomes \<open>[[2, 3], [1, 1, 2]]\<close> and the
  result is 3, the column of the seam that normalization opens after the first brick of
  row 0; the seams of row 1 are at the columns 2 and 4.
\<close>

theorem crossline_two_rows:
  "is_valid \<lparr>wall = [[2], [1, 1]], crossing_sign = s\<rparr> = Inr False \<and>
   (shd g mod 8 = 0 \<longrightarrow>
      find_min_brick_crossline_position \<lparr>wall = [[2], [1, 1]], crossing_sign = s\<rparr> g
        = Some (Inr (3, \<lparr>wall = [[2, 3], [1, 1, 2]], crossing_sign = s\<rparr>, stl (stl (stl g)))) \<and>
      seam_rows [[2, 3], [1, 1, 2]] [] = [(3, 1), (2, 1), (4, 1)])"
proof (intro conjI impI)
  show v: "is_valid \<lparr>wall = [[2], [1, 1]], crossing_sign = s\<rparr> = Inr False"
    by (simp add: is_valid_def row_len_def)
  show "seam_rows [[2, 3], [1, 1, 2]] [] = [(3, 1), (2, 1), (4, 1)]"
    by (simp add: Let_def)
  assume z: "shd g mod 8 = 0"
  have m: "get_max_row_len \<lparr>wall = [[2], [1, 1]], crossing_sign = s\<rparr> = Inr 5"
    by (simp add: get_max_row_len_def row_len_def)
  have p1: "fill_wall_with_bricks \<lparr>wall = [[2], [1, 1]], crossing_sign = s\<rparr> 5 False g
     = Some (Inr (\<lparr>wall = [[2], [1, 1]], crossing_sign = s\<rparr>, g))"
    by (simp add: fill_wall_with_bricks_def bind_res_def fill_loop.simps)
  have e: "randint 3 max_extra_length g = Inr (3, stl g)"
    using z by (simp add: randint_def max_extra_length_def)
  have r0: "fill_loop 6 3 [2] (stl g) = Some (Inr ([2, 3], stl (stl g)))"
    by (subst fill_loop.simps) (simp add: randint_def)
  have r1: "fill_loop 6 4 [1, 1] (stl (stl g)) = Some (Inr ([1, 1, 2], stl (stl (stl g))))"
    by (subst fill_loop.simps) (simp add: randint_def)
  have p2: "fill_wall_with_bricks \<lparr>wall = [[2], [1, 1]], crossing_sign = s\<rparr> (5 + 3) False (stl g)
     = Some (Inr (\<lparr>wall = [[2, 3], [1, 1, 2]], crossing_sign = s\<rparr>, stl (stl (stl g))))"
    by (simp add: fill_wall_with_bricks_def bind_res_def r0 r1)
  have n: "normalize_wall \<lparr>wall = [[2], [1, 1]], crossing_sign = s\<rparr> g
     = Some (Inr (\<lparr>wall = [[2, 3], [1, 1, 2]], crossing_sign = s\<rparr>, stl (stl (stl g))))"
    using p2 by (simp add: normalize_wall_def bind_res_def v m p1 e)
  show "find_min_brick_crossline_position \<lparr>wall = [[2], [1, 1]], crossing_sign = s\<rparr> g
        = Some (Inr (3, \<lparr>wall = [[2, 3], [1, 1, 2]], crossing_sign = s\<rparr>, stl (stl (stl g))))"
    by (simp add: find_min_brick_crossline_position_def bind_res_def v n Let_def)
qed

theorem crossline_two_rows_witness:
  "shd (sconst (0::nat)) mod 8 = 0 \<and>
   find_min_brick_crossline_position \<lparr>wall = [[2], [1, 1]], crossing_sign = ''x''\<rparr> (sconst 0)
     = Some (Inr (3, \<lparr>wall = [[2, 3], [1, 1, 2]], crossing_sign = ''x''\<rparr>, sconst 0))"
  using crossline_two_rows[of "''x''" "sconst 0"] by simp

section \<open>Generation and the module global\<close>

lemma create_wall_no_error:
  assumes gw: "list_all (list_all isinstance_int) wall_g"
    and rn: "case rn of None \<Rightarrow> True | Some n \<Rightarrow> 1 \<le> n"
    and rl: "case rl of None \<Rightarrow> True | Some l \<Rightarrow> 3 \<le> l"
  shows "create_wall (Some wall_g) self rn rl g \<noteq> Some (Inl e)"
proof -
  have fresh: "fill_wall_with_bricks (self\<lparr>wall := replicate k []\<rparr>) l True g0 \<noteq> Some (Inl e)"
    for k l g0
    by (rule fill_wall_no_error) (simp add: all_positive_def list_all_iff)
  have lo: "\<not> 1 + int k < 1" "\<not> 10 + int k < 3" for k by simp_all
  show ?thesis
  proof (cases rn)
    case None
    show ?thesis
    proof (cases rl)
      case rlN: None
      show ?thesis
        unfolding None rlN create_wall_def
        by (simp add: bind_res_def randint_def wall_setter_def gw max_rows_number_def
            max_row_length_def lo fresh)
    next
      case (Some l)
      with rl have "\<not> l < 3" by simp
      then show ?thesis
        unfolding None Some create_wall_def
        by (simp add: bind_res_def randint_def wall_setter_def gw max_rows_number_def lo fresh)
    qed
  next
    case (Some n)
    with rn have n: "\<not> n < 1" by simp
    show ?thesis
    proof (cases rl)
      case None
      show ?thesis
        unfolding None Some create_wall_def using n
        by (simp add: bind_res_def randint_def wall_setter_def gw max_row_length_def lo fresh)
    next
      case rlS: (Some l)
      with rl have "\<not> l < 3" by simp
      with n show ?thesis
        unfolding Some rlS create_wall_def
        by (simp add: bind_res_def wall_setter_def gw fresh)
    qed
  qed
qed

text \<open>
  Where the setter's test passes, as it does when the file runs as a script,
  \<^verbatim>\<open>create_wall\<close> produces a wall for every row count of at least 1 and every row length
  of at least 3, supplied or drawn, on every source of draws that lets the loops end,
  and that wall is valid.
\<close>

lemma create_wall_produces_valid:
  assumes gw: "list_all (list_all isinstance_int) wall_g"
    and rn: "case rn of None \<Rightarrow> True | Some n \<Rightarrow> 1 \<le> n"
    and rl: "case rl of None \<Rightarrow> True | Some l \<Rightarrow> 3 \<le> l"
    and fin: "create_wall (Some wall_g) self rn rl g \<noteq> None"
  shows "\<exists>self' g'. create_wall (Some wall_g) self rn rl g = Some (Inr (self', g')) \<and>
           is_valid self' = Inr True"
proof -
  from fin obtain res where res: "create_wall (Some wall_g) self rn rl g = Some res" by auto
  show ?thesis
  proof (cases res)
    case (Inl e)
    with res create_wall_no_error[OF gw rn rl, of self g e] show ?thesis by simp
  next
    case (Inr p)
    obtain self' g' where p: "p = (self', g')" by (cases p)
    from res Inr p have r: "create_wall (Some wall_g) self rn rl g = Some (Inr (self', g'))"
      by simp
    from create_wall_valid[of "Some wall_g" self rn rl g self' g'] r show ?thesis by blast
  qed
qed

lemma create_wall_no_global:
  "create_wall None self rn rl g \<noteq> Some (Inr r)"
  by (cases rn; cases rl)
     (auto simp: create_wall_def bind_res_def wall_setter_def randint_def
        split: if_splits)

text \<open>
  Claim C4. For every row count of at least 1 and every row length of at least 3,
  \<^verbatim>\<open>create_wall\<close> leaves a valid wall. The assignment \<^verbatim>\<open>self.wall = [[] for ...]\<close> goes
  through the setter, whose test reads the module global \<^verbatim>\<open>wall\<close>: in a program that
  imports the module there is no such global, and \<^verbatim>\<open>create_wall(2, 8)\<close> raises
  \<^verbatim>\<open>NameError\<close> before a row is filled; so does \<^verbatim>\<open>BrickWall()\<close>, which calls it.
\<close>

theorem create_wall_without_global_wall:
  "create_wall None \<lparr>wall = [], crossing_sign = ''x''\<rparr> (Some 2) (Some 8) (sconst 0)
     = Some (Inl NameError) \<and>
   BrickWall_init_default None (sconst 0) = Some (Inl NameError)"
  by (simp add: BrickWall_init_default_def create_wall_def bind_res_def wall_setter_def
      randint_def max_rows_number_def max_row_length_def)

end
